theory Spec2Isabelle
  imports Main "HOL-Library.Word"
begin

section \<open>The generic IO module of app-core (mod\_io.c)\<close>

text \<open>
  A shallow embedding of \<^verbatim>\<open>apps/appcorerun/src/mod_io.c\<close>.

  \<^item> The static context \<^verbatim>\<open>_ctx\<close> (an array of \<^verbatim>\<open>NB_IOS\<close> slots) is a list of
    records; the C type fixes its length, which the theorems assume as \<open>wf\<close>.
  \<^item> Every call that leaves the file (GPIO manager, button manager, app-core) is
    recorded, in program order and with its arguments, in the \<open>trace\<close> of the
    \<open>world\<close>. "No hardware access" is therefore "the trace is unchanged".
  \<^item> What the outside returns or declares (pin samples, the device-active flag and the
    constants of headers that are not part of the sources) is the parameter \<open>platform\<close>.
  \<^item> C \<^verbatim>\<open>int\<close> values that are only compared are \<open>int\<close>; \<^verbatim>\<open>uint8_t\<close> and
    \<^verbatim>\<open>int8_t\<close> are 8-bit words, the latter read with \<open>sint\<close>; a store of an
    \<^verbatim>\<open>int\<close> in a byte keeps its low 8 bits (\<open>word_of_int\<close>).
  \<^item> An array access outside its bounds is undefined behaviour in C. Where the source
    has no guard in front of such an access the model returns a \<open>fault\<close>: this is
    not an error the C function reports (it returns \<^verbatim>\<open>void\<close>), it marks a run
    whose behaviour the language does not define.
  \<^item> The calls of \<^verbatim>\<open>log_debug\<close>, \<^verbatim>\<open>log_info\<close> and \<^verbatim>\<open>log_warn\<close> are diagnostic and
    are not part of the model. Calls of other modules that stand in their argument
    lists (the three getters of the button manager in \<^verbatim>\<open>buttonChangeCB\<close>) are: they are
    recorded in the order they are written, C leaving the order of evaluation open.
\<close>

subsection \<open>Types\<close>

type_synonym int8_t = "8 word"
type_synonym uint8_t = "8 word"

text \<open>Enumerations declared in headers outside the sources, by their integer values.\<close>

type_synonym GPIO_IDLE_TYPE = int
type_synonym LP_MODE = int
type_synonym SR_BUTTON_STATE_t = int
type_synonym SR_BUTTON_PRESS_TYPE_t = int

datatype IO_TYPE = IO_DIN | IO_DOUT | IO_BUTTON | IO_STATE | IO_AIN | IO_PWMOUT

definition NB_IOS :: nat where
  "NB_IOS = 8"

text \<open>\<^verbatim>\<open>struct mio\<close>: \<open>gpio\<close> is signed, "if not -1, then active".\<close>

record mio =
  gpio :: int8_t
  name :: string
  type :: IO_TYPE
  pull :: GPIO_IDLE_TYPE
  valueDL :: uint8_t
  valueUL :: uint8_t

text \<open>The two callbacks this file hands to the button manager.\<close>

datatype callback = buttonChangeCB_ptr | stateInputChangeCB_ptr

text \<open>The calls to other modules, with their arguments in the order of the C call.\<close>

datatype call =
    GPIO_define_in string int8_t GPIO_IDLE_TYPE LP_MODE GPIO_IDLE_TYPE
  | GPIO_define_adc string int8_t int8_t LP_MODE GPIO_IDLE_TYPE
  | SRMgr_defineButton int8_t
  | SRMgr_registerButtonCB int8_t callback int
  | GPIO_define_out string int8_t uint8_t LP_MODE GPIO_IDLE_TYPE
  | GPIO_read int8_t
  | GPIO_readADC int8_t
  | GPIO_write int8_t uint8_t
  | AppCore_forceUL int
  | app_core_msg_ul_addTLV int nat "uint8_t list"
  | SRMgr_getLastButtonReleaseTS int8_t
  | SRMgr_getLastButtonPressTS int8_t
  | SRMgr_getLastButtonPressType int8_t
  | AppCore_registerModule string int int
  | AppCore_registerAction int

text \<open>
  What the rest of the firmware provides: the constants of its headers, the values its
  read functions return for a pin, and the host's activity flag.
\<close>

record platform =
  LP_DOZE :: LP_MODE
  HIGH_Z :: GPIO_IDLE_TYPE
  MY_MOD_ID :: int
  UL_APP_IO_STATE :: int
  SR_BUTTON_RELEASED :: SR_BUTTON_STATE_t
  DL_APP_IO_SET :: int
  EXEC_PARALLEL :: int
  GPIO_read_result :: "int8_t \<Rightarrow> int"
  GPIO_readADC_result :: "int8_t \<Rightarrow> int"
  AppCore_isDeviceActive :: bool

record world =
  ios :: "mio list"
  trace :: "call list"

datatype fault = OutOfBoundsWrite | OutOfBoundsRead

definition wf :: "world \<Rightarrow> bool" where
  "wf w = (length (ios w) = NB_IOS)"

subsection \<open>Access to the context and to the outside\<close>

definition set_io :: "nat \<Rightarrow> (mio \<Rightarrow> mio) \<Rightarrow> world \<Rightarrow> world" where
  "set_io i f w = w\<lparr>ios := (ios w)[i := f (ios w ! i)]\<rparr>"

definition emit :: "call \<Rightarrow> world \<Rightarrow> world" where
  "emit c w = w\<lparr>trace := trace w @ [c]\<rparr>"

subsection \<open>The functions of the file\<close>

text \<open>
  \<^verbatim>\<open>defineIO\<close>: five stores into \<^verbatim>\<open>_ctx.ios[ioid]\<close>, with no test of \<^verbatim>\<open>ioid\<close>.
  The \<open>if\<close> below is the array bound of C, not a guard of the source. The pin is an
  \<^verbatim>\<open>int\<close> stored in an \<^verbatim>\<open>int8_t\<close>.
\<close>

definition defineIO ::
  "int \<Rightarrow> int \<Rightarrow> string \<Rightarrow> IO_TYPE \<Rightarrow> GPIO_IDLE_TYPE \<Rightarrow> uint8_t \<Rightarrow> world \<Rightarrow> fault + world" where
  "defineIO ioid g nm t p initialValue w =
     (if 0 \<le> ioid \<and> ioid < int NB_IOS
      then Inr (set_io (nat ioid)
                  (\<lambda>m. m\<lparr>gpio := word_of_int g, name := nm, type := t, pull := p,
                          valueDL := initialValue\<rparr>) w)
      else Inl OutOfBoundsWrite)"

text \<open>One round of the loop of \<^verbatim>\<open>initIOs\<close>.\<close>

definition initIO :: "platform \<Rightarrow> nat \<Rightarrow> world \<Rightarrow> world" where
  "initIO P i w =
     (let io = ios w ! i in
      if 0 \<le> sint (gpio io) then
        (case type io of
           IO_DIN \<Rightarrow> emit (GPIO_define_in (name io) (gpio io) (pull io) (LP_DOZE P) (HIGH_Z P)) w
         | IO_AIN \<Rightarrow> emit (GPIO_define_adc (name io) (gpio io) (gpio io) (LP_DOZE P) (HIGH_Z P)) w
         | IO_BUTTON \<Rightarrow>
             emit (SRMgr_registerButtonCB (gpio io) buttonChangeCB_ptr (int i))
               (emit (SRMgr_defineButton (gpio io)) w)
         | IO_STATE \<Rightarrow>
             emit (SRMgr_registerButtonCB (gpio io) stateInputChangeCB_ptr (int i))
               (emit (SRMgr_defineButton (gpio io)) w)
         | IO_DOUT \<Rightarrow>
             emit (GPIO_define_out (name io) (gpio io) (valueDL io) (LP_DOZE P) (HIGH_Z P)) w
         | IO_PWMOUT \<Rightarrow> w)
      else w)"

definition initIOs :: "platform \<Rightarrow> world \<Rightarrow> world" where
  "initIOs P w = fold (initIO P) [0..<NB_IOS] w"

definition deinitIOs :: "world \<Rightarrow> world" where
  "deinitIOs w = w"

definition readIO :: "platform \<Rightarrow> int \<Rightarrow> world \<Rightarrow> uint8_t \<times> world" where
  "readIO P ioid w =
     (if 0 \<le> ioid \<and> ioid < int NB_IOS then
        (let i = nat ioid;
             io = ios w ! i;
             w' = (if 0 \<le> sint (gpio io) then
                     (case type io of
                        IO_DIN \<Rightarrow>
                          set_io i (\<lambda>m. m\<lparr>valueUL := word_of_int (GPIO_read_result P (gpio io))\<rparr>)
                            (emit (GPIO_read (gpio io)) w)
                      | IO_AIN \<Rightarrow>
                          set_io i (\<lambda>m. m\<lparr>valueUL := word_of_int (GPIO_readADC_result P (gpio io))\<rparr>)
                            (emit (GPIO_readADC (gpio io)) w)
                      | _ \<Rightarrow> w)
                   else w)
         in (valueUL (ios w' ! i), w'))
      else (0, w))"

text \<open>\<^verbatim>\<open>writeIO\<close>: the parameter \<open>val\<close> is not used by the body; the byte written is
  the slot's \<open>valueDL\<close>.\<close>

definition writeIO :: "int \<Rightarrow> uint8_t \<Rightarrow> world \<Rightarrow> world" where
  "writeIO ioid val w =
     (if 0 \<le> ioid \<and> ioid < int NB_IOS then
        (let io = ios w ! nat ioid in
         if 0 \<le> sint (gpio io) then
           (case type io of
              IO_DOUT \<Rightarrow> emit (GPIO_write (gpio io) (valueDL io)) w
            | IO_PWMOUT \<Rightarrow> w
            | _ \<Rightarrow> w)
         else w)
      else w)"

definition readIOs :: "platform \<Rightarrow> world \<Rightarrow> world" where
  "readIOs P w = fold (\<lambda>i w. snd (readIO P (int i) w)) [0..<NB_IOS] w"

text \<open>One round of the loop of \<^verbatim>\<open>getData\<close> over the local array \<open>ds\<close> and the context.\<close>

definition getData_round :: "nat \<Rightarrow> uint8_t list \<times> world \<Rightarrow> uint8_t list \<times> world" where
  "getData_round i = (\<lambda>(ds, w).
     (ds[i := valueUL (ios w ! i)], set_io i (\<lambda>m. m\<lparr>valueUL := 0\<rparr>) w))"

text \<open>
  \<^verbatim>\<open>getData\<close>: \<open>ds\<close> has \<open>NB_IOS + 1\<close> bytes, all of them written before the call of
  \<^verbatim>\<open>app_core_msg_ul_addTLV\<close>, whose length argument is the literal 12. The uplink
  buffer the TLV goes to belongs to app-core; the call is recorded in the trace.
\<close>

definition getData :: "platform \<Rightarrow> world \<Rightarrow> bool \<times> world" where
  "getData P w =
     (let w1 = readIOs P w;
          (ds, w2) = fold getData_round [0..<NB_IOS] (replicate (NB_IOS + 1) 0, w1);
          ds' = ds[NB_IOS := (if AppCore_isDeviceActive P then 1 else 0)]
      in (True, emit (app_core_msg_ul_addTLV (UL_APP_IO_STATE P) 12 ds') w2))"

text \<open>
  One round of the loop of \<^verbatim>\<open>iosetAction\<close>. \<open>v\<close> is the buffer behind the pointer; a
  read of \<open>v[i]\<close> past its end is a fault.
\<close>

definition iosetAction_round :: "uint8_t list \<Rightarrow> nat \<Rightarrow> fault + world \<Rightarrow> fault + world" where
  "iosetAction_round v i r =
     (case r of
        Inl e \<Rightarrow> Inl e
      | Inr w \<Rightarrow>
          if type (ios w ! i) = IO_DOUT \<or> type (ios w ! i) = IO_PWMOUT then
            (if i < length v
             then Inr (writeIO (int i) (v ! i) (set_io i (\<lambda>m. m\<lparr>valueDL := v ! i\<rparr>) w))
             else Inl OutOfBoundsRead)
          else Inr w)"

definition iosetAction :: "uint8_t list \<Rightarrow> uint8_t \<Rightarrow> world \<Rightarrow> fault + world" where
  "iosetAction v l w =
     (if unat l = NB_IOS then fold (iosetAction_round v) [0..<NB_IOS] (Inr w) else Inr w)"

text \<open>
  The callbacks; \<open>ctx\<close> is the \<^verbatim>\<open>void*\<close> read back as an \<^verbatim>\<open>int\<close>. On a release with a
  valid index, \<^verbatim>\<open>buttonChangeCB\<close> first asks the button manager for the two time stamps
  and the press type of the slot's pin (for its log line, with no test of the pin), then
  stores the press type and forces the uplink.
\<close>

definition buttonChangeCB ::
  "platform \<Rightarrow> int \<Rightarrow> SR_BUTTON_STATE_t \<Rightarrow> SR_BUTTON_PRESS_TYPE_t \<Rightarrow> world \<Rightarrow> world" where
  "buttonChangeCB P ctx currentState currentPressType w =
     (if currentState = SR_BUTTON_RELEASED P then
        (if AppCore_isDeviceActive P then
           (let bid = ctx in
            if 0 \<le> bid \<and> bid < int NB_IOS then
              emit (AppCore_forceUL (MY_MOD_ID P))
                (set_io (nat bid) (\<lambda>m. m\<lparr>valueUL := word_of_int currentPressType\<rparr>)
                  (emit (SRMgr_getLastButtonPressType (gpio (ios w ! nat bid)))
                    (emit (SRMgr_getLastButtonPressTS (gpio (ios w ! nat bid)))
                      (emit (SRMgr_getLastButtonReleaseTS (gpio (ios w ! nat bid))) w))))
            else w)
         else w)
      else w)"

definition stateInputChangeCB ::
  "platform \<Rightarrow> int \<Rightarrow> SR_BUTTON_STATE_t \<Rightarrow> SR_BUTTON_PRESS_TYPE_t \<Rightarrow> world \<Rightarrow> world" where
  "stateInputChangeCB P ctx currentState currentPressType w =
     (if AppCore_isDeviceActive P then
        (let bid = ctx in
         if 0 \<le> bid \<and> bid < int NB_IOS then
           emit (AppCore_forceUL (MY_MOD_ID P))
             (set_io (nat bid) (\<lambda>m. m\<lparr>valueUL := word_of_int currentState\<rparr>) w)
         else w)
      else w)"

subsection \<open>Initialisation\<close>

text \<open>
  \<^verbatim>\<open>_ctx\<close> has static storage: it starts with every byte zero (pin 0, type \<^verbatim>\<open>IO_DIN\<close>,
  both values 0).
\<close>

definition zeroed_ctx :: world where
  "zeroed_ctx =
     \<lparr>ios = replicate NB_IOS
              \<lparr>gpio = 0, name = [], type = IO_DIN, pull = 0, valueDL = 0, valueUL = 0\<rparr>,
      trace = []\<rparr>"

text \<open>
  \<^verbatim>\<open>mod_io_init\<close> opens with the eight statements \<^verbatim>\<open>MYNEWT_VAL(IO_0)\<close> ...
  \<^verbatim>\<open>MYNEWT_VAL(IO_7)\<close>, whose expansions belong to the build configuration and are not
  part of the sources. \<^verbatim>\<open>defineIO\<close> is \<^verbatim>\<open>static\<close> and named nowhere else in the file, so
  these statements are its only callers: the calls of \<^verbatim>\<open>defineIO\<close> they make, in
  order, are the parameter \<open>cfg\<close>. The module then registers itself and its downlink
  action with app-core (the two function tables handed over are not recorded) and calls
  \<^verbatim>\<open>initIOs\<close>.
\<close>

type_synonym defineIO_args = "int \<times> int \<times> string \<times> IO_TYPE \<times> GPIO_IDLE_TYPE \<times> uint8_t"

definition configure_round :: "defineIO_args \<Rightarrow> fault + world \<Rightarrow> fault + world" where
  "configure_round d r =
     (case r of
        Inl e \<Rightarrow> Inl e
      | Inr w \<Rightarrow> (case d of (ioid, g, nm, t, p, initialValue) \<Rightarrow> defineIO ioid g nm t p initialValue w))"

definition mod_io_init :: "platform \<Rightarrow> defineIO_args list \<Rightarrow> fault + world" where
  "mod_io_init P cfg =
     (case fold configure_round cfg (Inr zeroed_ctx) of
        Inl e \<Rightarrow> Inl e
      | Inr w \<Rightarrow>
          Inr (initIOs P
                 (emit (AppCore_registerAction (DL_APP_IO_SET P))
                    (emit (AppCore_registerModule ''IO'' (MY_MOD_ID P) (EXEC_PARALLEL P)) w))))"

subsection \<open>Runs of the module\<close>

text \<open>
  After \<^verbatim>\<open>mod_io_init\<close> the host and the button manager drive the module. The host
  asks for the uplink data (\<^verbatim>\<open>getData\<close>) and hands over downlink actions
  (\<^verbatim>\<open>iosetAction\<close>); \<^verbatim>\<open>readIO\<close>, \<^verbatim>\<open>readIOs\<close> and \<^verbatim>\<open>writeIO\<close> run inside these and are
  steps of their own here, with any arguments. The button manager calls back what was
  registered with it: a callback is a step only with a context that
  \<^verbatim>\<open>SRMgr_registerButtonCB\<close> was given for that callback. Each step has its own
  platform argument: samples and the activity flag change over time. A step that ends
  in a fault ends the run.
\<close>

definition registered :: "callback \<Rightarrow> int \<Rightarrow> world \<Rightarrow> bool" where
  "registered cb c w =
     list_ex (\<lambda>e. case e of SRMgr_registerButtonCB p cb' c' \<Rightarrow> cb' = cb \<and> c' = c | _ \<Rightarrow> False)
       (trace w)"

datatype operation =
    ReadIO platform int
  | WriteIO int uint8_t
  | ReadIOs platform
  | GetData platform
  | IosetAction "uint8_t list" uint8_t
  | ButtonChange platform int SR_BUTTON_STATE_t SR_BUTTON_PRESS_TYPE_t
  | StateInputChange platform int SR_BUTTON_STATE_t SR_BUTTON_PRESS_TYPE_t

fun step :: "operation \<Rightarrow> world \<Rightarrow> world option" where
  "step (ReadIO P ioid) w = Some (snd (readIO P ioid w))"
| "step (WriteIO ioid v) w = Some (writeIO ioid v w)"
| "step (ReadIOs P) w = Some (readIOs P w)"
| "step (GetData P) w = Some (snd (getData P w))"
| "step (IosetAction v l) w = (case iosetAction v l w of Inl e \<Rightarrow> None | Inr w' \<Rightarrow> Some w')"
| "step (ButtonChange P c st pt) w =
     (if registered buttonChangeCB_ptr c w then Some (buttonChangeCB P c st pt w) else None)"
| "step (StateInputChange P c st pt) w =
     (if registered stateInputChangeCB_ptr c w then Some (stateInputChangeCB P c st pt w) else None)"

fun run :: "operation list \<Rightarrow> world \<Rightarrow> world option" where
  "run [] w = Some w"
| "run (x # xs) w = (case step x w of None \<Rightarrow> None | Some w' \<Rightarrow> run xs w')"

subsection \<open>What one round does to its slot\<close>

text \<open>
  The effect of \<^verbatim>\<open>readIO\<close> on the slot it is given and the calls it makes for it, as
  functions of that slot alone. They are used to state the lemmas about the loops; the
  lemmas \<open>readIO_ios\<close> and \<open>readIO_trace\<close> below prove them equal to the code.
\<close>

definition readIO_slot :: "platform \<Rightarrow> mio \<Rightarrow> mio" where
  "readIO_slot P m =
     (if 0 \<le> sint (gpio m) then
        (case type m of
           IO_DIN \<Rightarrow> m\<lparr>valueUL := word_of_int (GPIO_read_result P (gpio m))\<rparr>
         | IO_AIN \<Rightarrow> m\<lparr>valueUL := word_of_int (GPIO_readADC_result P (gpio m))\<rparr>
         | _ \<Rightarrow> m)
      else m)"

definition readIO_calls :: "mio \<Rightarrow> call list" where
  "readIO_calls m =
     (if 0 \<le> sint (gpio m) then
        (case type m of
           IO_DIN \<Rightarrow> [GPIO_read (gpio m)]
         | IO_AIN \<Rightarrow> [GPIO_readADC (gpio m)]
         | _ \<Rightarrow> [])
      else [])"

subsection \<open>A configuration to run the code on\<close>

text \<open>
  An illustrative platform (every pin samples 1, every ADC channel 77, the device is
  active; the constants are arbitrary) and a slot table with a digital output on pin 5,
  a button on pin 6 holding press type 2, a digital input on pin 7, a state input on
  pin 8 and four slots without a pin, one of them declared as output.
\<close>

definition example_platform :: platform where
  "example_platform =
     \<lparr>LP_DOZE = 1, HIGH_Z = 0, MY_MOD_ID = 3, UL_APP_IO_STATE = 240, SR_BUTTON_RELEASED = 0,
      DL_APP_IO_SET = 241, EXEC_PARALLEL = 1,
      GPIO_read_result = (\<lambda>_. 1), GPIO_readADC_result = (\<lambda>_. 77),
      AppCore_isDeviceActive = True\<rparr>"

definition example_world :: world where
  "example_world =
     \<lparr>ios =
        [\<lparr>gpio = 5, name = ''out'', type = IO_DOUT, pull = 0, valueDL = 0, valueUL = 0\<rparr>,
         \<lparr>gpio = 6, name = ''btn'', type = IO_BUTTON, pull = 0, valueDL = 0, valueUL = 2\<rparr>,
         \<lparr>gpio = 7, name = ''din'', type = IO_DIN, pull = 0, valueDL = 0, valueUL = 0\<rparr>,
         \<lparr>gpio = - 1, name = ''off'', type = IO_DOUT, pull = 0, valueDL = 0, valueUL = 0\<rparr>,
         \<lparr>gpio = 8, name = ''door'', type = IO_STATE, pull = 0, valueDL = 0, valueUL = 0\<rparr>,
         \<lparr>gpio = - 1, name = ''off'', type = IO_DIN, pull = 0, valueDL = 0, valueUL = 0\<rparr>,
         \<lparr>gpio = - 1, name = ''off'', type = IO_DIN, pull = 0, valueDL = 0, valueUL = 0\<rparr>,
         \<lparr>gpio = - 1, name = ''off'', type = IO_DIN, pull = 0, valueDL = 0, valueUL = 0\<rparr>],
      trace = []\<rparr>"

text \<open>
  A configuration that yields this table, the world \<^verbatim>\<open>mod_io_init\<close> leaves with it, and
  a run from there: the state input changes, the host takes a report and sets the
  outputs, the button is released with press type 2.
\<close>

definition example_cfg :: "defineIO_args list" where
  "example_cfg =
     [(0, 5, ''out'', IO_DOUT, 0, 0), (1, 6, ''btn'', IO_BUTTON, 0, 0),
      (2, 7, ''din'', IO_DIN, 0, 0), (3, - 1, ''off'', IO_DOUT, 0, 0),
      (4, 8, ''door'', IO_STATE, 0, 0), (5, - 1, ''off'', IO_DIN, 0, 0),
      (6, - 1, ''off'', IO_DIN, 0, 0), (7, - 1, ''off'', IO_DIN, 0, 0)]"

definition example_booted :: world where
  "example_booted =
     (case mod_io_init example_platform example_cfg of Inr w \<Rightarrow> w | Inl e \<Rightarrow> zeroed_ctx)"

definition example_run :: "operation list" where
  "example_run =
     [StateInputChange example_platform 4 1 0, GetData example_platform,
      IosetAction [1, 0, 1, 1, 0, 0, 0, 0] 8, ButtonChange example_platform 1 0 2]"

definition example_reached :: world where
  "example_reached =
     (case run example_run example_booted of Some w \<Rightarrow> w | None \<Rightarrow> zeroed_ctx)"

subsection \<open>Reading the trace\<close>

text \<open>The bytes of the report handed to app-core last (empty if the last call is no report).\<close>

definition last_report :: "world \<Rightarrow> uint8_t list" where
  "last_report w =
     (case rev (trace w) of
        [] \<Rightarrow> []
      | c # _ \<Rightarrow> (case c of app_core_msg_ul_addTLV t l ds \<Rightarrow> ds | _ \<Rightarrow> []))"

text \<open>
  The pins a call addresses, the calls an operation has added to the trace, and what it
  means that these calls leave a slot alone: every pin they address is an assigned one
  (not negative) and is not the pin of the slot.
\<close>

fun call_pins :: "call \<Rightarrow> int8_t list" where
  "call_pins (GPIO_define_in n p pl lp idle) = [p]"
| "call_pins (GPIO_define_adc n p ch lp idle) = [p, ch]"
| "call_pins (SRMgr_defineButton p) = [p]"
| "call_pins (SRMgr_registerButtonCB p cb c) = [p]"
| "call_pins (GPIO_define_out n p v lp idle) = [p]"
| "call_pins (GPIO_read p) = [p]"
| "call_pins (GPIO_readADC p) = [p]"
| "call_pins (GPIO_write p v) = [p]"
| "call_pins (AppCore_forceUL m) = []"
| "call_pins (app_core_msg_ul_addTLV t l ds) = []"
| "call_pins (SRMgr_getLastButtonReleaseTS p) = [p]"
| "call_pins (SRMgr_getLastButtonPressTS p) = [p]"
| "call_pins (SRMgr_getLastButtonPressType p) = [p]"
| "call_pins (AppCore_registerModule n m e) = []"
| "call_pins (AppCore_registerAction t) = []"

definition new_calls :: "world \<Rightarrow> world \<Rightarrow> call list" where
  "new_calls w w' = drop (length (trace w)) (trace w')"

definition no_access :: "mio \<Rightarrow> call list \<Rightarrow> bool" where
  "no_access m cs =
     list_all (\<lambda>c. list_all (\<lambda>p. p \<noteq> gpio m \<and> 0 \<le> sint p) (call_pins c)) cs"

subsection \<open>Notions used in the proofs\<close>

text \<open>
  A call is \<open>quiet\<close> if its pins are assigned and it registers no callback; \<open>reg_ok\<close>
  says that a registration names a slot that has a pin; \<open>appends Q\<close> relates two worlds
  when the second has the trace of the first followed by calls that satisfy \<open>Q\<close>.
  \<open>ctx_inv\<close> is the invariant of the runs: the table has its length, a slot without a
  pin holds \<open>valueUL = 0\<close>, and every registration in the trace names a slot with a pin.
  \<open>step_ok\<close> is what every step keeps: the length, every pin, every field but \<open>valueDL\<close>
  of a slot without a pin, and a trace extended by quiet calls.
\<close>

definition pins_ok :: "call \<Rightarrow> bool" where
  "pins_ok c = list_all (\<lambda>p. 0 \<le> sint p) (call_pins c)"

definition reg_ok :: "mio list \<Rightarrow> call \<Rightarrow> bool" where
  "reg_ok T c =
     (case c of
        SRMgr_registerButtonCB p cb ctx \<Rightarrow>
          0 \<le> ctx \<and> ctx < int NB_IOS \<and> 0 \<le> sint (gpio (T ! nat ctx))
      | _ \<Rightarrow> True)"

definition quiet :: "call \<Rightarrow> bool" where
  "quiet c = (pins_ok c \<and> (case c of SRMgr_registerButtonCB p cb ctx \<Rightarrow> False | _ \<Rightarrow> True))"

definition appends :: "(call \<Rightarrow> bool) \<Rightarrow> world \<Rightarrow> world \<Rightarrow> bool" where
  "appends Q w w' = (\<exists>cs. trace w' = trace w @ cs \<and> list_all Q cs)"

definition ctx_inv :: "world \<Rightarrow> bool" where
  "ctx_inv w =
     (wf w
      \<and> (\<forall>k < NB_IOS. sint (gpio (ios w ! k)) < 0 \<longrightarrow> valueUL (ios w ! k) = 0)
      \<and> list_all (reg_ok (ios w)) (trace w))"

definition step_ok :: "world \<Rightarrow> world \<Rightarrow> bool" where
  "step_ok w w' =
     (wf w'
      \<and> (\<forall>k < NB_IOS. gpio (ios w' ! k) = gpio (ios w ! k)
            \<and> (sint (gpio (ios w ! k)) < 0 \<longrightarrow> ios w' ! k = (ios w ! k)\<lparr>valueDL := valueDL (ios w' ! k)\<rparr>))
      \<and> appends quiet w w')"

section \<open>Properties\<close>

subsection \<open>Basic facts\<close>

lemma ios_set_io [simp]: "ios (set_io i f w) = (ios w)[i := f (ios w ! i)]"
  by (simp add: set_io_def)

lemma trace_set_io [simp]: "trace (set_io i f w) = trace w"
  by (simp add: set_io_def)

lemma ios_emit [simp]: "ios (emit c w) = ios w"
  by (simp add: emit_def)

lemma trace_emit [simp]: "trace (emit c w) = trace w @ [c]"
  by (simp add: emit_def)

lemma wf_example_world: "wf example_world"
  by (simp add: wf_def example_world_def NB_IOS_def)

subsection \<open>Loops that visit each slot once\<close>

text \<open>
  A loop over the indices whose round \<open>i\<close> rewrites slot \<open>i\<close> only, as a function of
  that slot, and appends calls that depend on that slot only, acts on every slot
  independently.
\<close>

lemma fold_slotwise:
  assumes step: "\<And>i w. i < N \<Longrightarrow> i < length (ios w) \<Longrightarrow>
                   ios (f i w) = (ios w)[i := g i (ios w ! i)]"
      and tr: "\<And>i w. i < N \<Longrightarrow> i < length (ios w) \<Longrightarrow>
                   trace (f i w) = trace w @ e i (ios w ! i)"
      and n: "n \<le> N" "n \<le> length (ios w)"
  shows "length (ios (fold f [0..<n] w)) = length (ios w)
       \<and> (\<forall>j < length (ios w).
            ios (fold f [0..<n] w) ! j = (if j < n then g j (ios w ! j) else ios w ! j))
       \<and> trace (fold f [0..<n] w) = trace w @ concat (map (\<lambda>i. e i (ios w ! i)) [0..<n])"
  using n
proof (induction n)
  case 0
  then show ?case by simp
next
  case (Suc n)
  let ?w = "fold f [0..<n] w"
  from Suc have IH: "length (ios ?w) = length (ios w)"
    "\<And>j. j < length (ios w) \<Longrightarrow> ios ?w ! j = (if j < n then g j (ios w ! j) else ios w ! j)"
    "trace ?w = trace w @ concat (map (\<lambda>i. e i (ios w ! i)) [0..<n])"
    by simp_all
  from Suc.prems have nlt: "n < length (ios w)" and nN: "n < N" by simp_all
  have cur: "ios ?w ! n = ios w ! n" using IH(2) [OF nlt] by simp
  have nlt': "n < length (ios ?w)" using nlt IH(1) by simp
  have unf: "fold f [0..<Suc n] w = f n ?w" by simp
  show ?case
    unfolding unf
    by (simp add: step [OF nN nlt'] tr [OF nN nlt'] IH cur nth_list_update less_Suc_eq)
qed

subsection \<open>Reading\<close>

lemma readIO_ios:
  "i < NB_IOS \<Longrightarrow> ios (snd (readIO P (int i) w)) = (ios w)[i := readIO_slot P (ios w ! i)]"
  by (simp add: readIO_def readIO_slot_def Let_def split: IO_TYPE.splits)

lemma readIO_trace:
  "i < NB_IOS \<Longrightarrow> trace (snd (readIO P (int i) w)) = trace w @ readIO_calls (ios w ! i)"
  by (simp add: readIO_def readIO_calls_def Let_def split: IO_TYPE.splits)

lemma readIOs_slotwise:
  assumes "wf w"
  shows "length (ios (readIOs P w)) = NB_IOS"
    and "j < NB_IOS \<Longrightarrow> ios (readIOs P w) ! j = readIO_slot P (ios w ! j)"
    and "trace (readIOs P w) =
           trace w @ concat (map (\<lambda>i. readIO_calls (ios w ! i)) [0..<NB_IOS])"
proof -
  have len: "NB_IOS \<le> length (ios w)" using assms by (simp add: wf_def)
  note * = fold_slotwise [where f = "\<lambda>i w. snd (readIO P (int i) w)" and N = NB_IOS
      and n = NB_IOS and g = "\<lambda>i. readIO_slot P" and e = "\<lambda>i. readIO_calls" and w = w,
      OF readIO_ios readIO_trace order_refl len, folded readIOs_def]
  from * assms show "length (ios (readIOs P w)) = NB_IOS" by (simp add: wf_def)
  from * assms show "j < NB_IOS \<Longrightarrow> ios (readIOs P w) ! j = readIO_slot P (ios w ! j)"
    by (simp add: wf_def)
  from * show "trace (readIOs P w) =
      trace w @ concat (map (\<lambda>i. readIO_calls (ios w ! i)) [0..<NB_IOS])"
    by simp
qed

lemma readIOs_ios: "wf w \<Longrightarrow> ios (readIOs P w) = map (readIO_slot P) (ios w)"
  by (rule nth_equalityI) (simp_all add: readIOs_slotwise wf_def)

subsection \<open>The report\<close>

lemma getData_rounds:
  "n \<le> length ds \<Longrightarrow> n \<le> length (ios w) \<Longrightarrow>
   fold getData_round [0..<n] (ds, w) =
     (map valueUL (take n (ios w)) @ drop n ds,
      w\<lparr>ios := map (\<lambda>m. m\<lparr>valueUL := 0\<rparr>) (take n (ios w)) @ drop n (ios w)\<rparr>)"
proof (induction n)
  case 0
  then show ?case by simp
next
  case (Suc n)
  then have n: "n < length ds" "n < length (ios w)" by simp_all
  have d1: "drop n ds = ds ! n # drop (Suc n) ds"
    using n by (simp add: Cons_nth_drop_Suc)
  have d2: "drop n (ios w) = ios w ! n # drop (Suc n) (ios w)"
    using n by (simp add: Cons_nth_drop_Suc)
  show ?case using Suc n
    by (simp add: getData_round_def set_io_def list_update_append nth_append
        take_Suc_conv_app_nth d1 d2)
qed

lemma drop_replicate_last: "drop n (x # replicate n x) = [x]"
proof -
  have "drop n (replicate (Suc n) x) = replicate (Suc n - n) x" by (rule drop_replicate)
  then show ?thesis by simp
qed

lemma getData_eq:
  assumes "wf w"
  shows "getData P w =
    (True, \<lparr>ios = map (\<lambda>m. m\<lparr>valueUL := 0\<rparr>) (ios (readIOs P w)),
            trace = trace (readIOs P w) @
              [app_core_msg_ul_addTLV (UL_APP_IO_STATE P) 12
                 (map valueUL (ios (readIOs P w)) @
                  [if AppCore_isDeviceActive P then 1 else 0])]\<rparr>)"
proof -
  have len: "length (ios (readIOs P w)) = NB_IOS" using assms by (rule readIOs_slotwise)
  show ?thesis
    by (simp add: getData_def Let_def getData_rounds len emit_def list_update_append
        drop_replicate_last)
qed

text \<open>
  Claim C5. For every slot table, \<^verbatim>\<open>getData\<close> first refreshes the polled slots
  (\<^verbatim>\<open>readIOs\<close>), then hands app-core one block of \<open>NB_IOS + 1\<close> bytes: byte \<open>i\<close> is the
  \<open>valueUL\<close> of slot \<open>i\<close> after the refresh and the last byte is 1 if the device is
  active and 0 otherwise. The block goes out under the tag \<^verbatim>\<open>UL_APP_IO_STATE\<close> with the
  length argument 12, every \<open>valueUL\<close> is 0 afterwards (no other field changes), and the
  function returns true.
\<close>

theorem getData_builds_report:
  assumes "wf w"
  shows "\<exists>ds. length ds = NB_IOS + 1
            \<and> (\<forall>i < NB_IOS. ds ! i = valueUL (ios (readIOs P w) ! i))
            \<and> ds ! NB_IOS = (if AppCore_isDeviceActive P then 1 else 0)
            \<and> getData P w =
                (True, \<lparr>ios = map (\<lambda>m. m\<lparr>valueUL := 0\<rparr>) (ios (readIOs P w)),
                        trace = trace (readIOs P w) @
                          [app_core_msg_ul_addTLV (UL_APP_IO_STATE P) 12 ds]\<rparr>)"
proof -
  let ?ds = "map valueUL (ios (readIOs P w)) @ [if AppCore_isDeviceActive P then 1 else 0]"
  have len: "length (ios (readIOs P w)) = NB_IOS" using assms by (rule readIOs_slotwise)
  have "length ?ds = NB_IOS + 1" using len by simp
  moreover have "\<forall>i < NB_IOS. ?ds ! i = valueUL (ios (readIOs P w) ! i)"
    using len by (simp add: nth_append)
  moreover have "?ds ! NB_IOS = (if AppCore_isDeviceActive P then 1 else 0)"
    using len by (simp add: nth_append)
  moreover note getData_eq [OF assms, of P]
  ultimately show ?thesis by blast
qed

theorem getData_builds_report_witness:
  "wf example_world
   \<and> getData example_platform example_world =
       (True, \<lparr>ios = map (\<lambda>m. m\<lparr>valueUL := 0\<rparr>) (ios (readIOs example_platform example_world)),
               trace = [GPIO_read 7, app_core_msg_ul_addTLV 240 12 [0, 2, 1, 0, 0, 0, 0, 0, 1]]\<rparr>)"
proof -
  have h: "wf example_world" by (rule wf_example_world)
  from getData_builds_report [OF h, of example_platform]
  obtain ds where ds: "length ds = NB_IOS + 1"
    and g: "getData example_platform example_world =
       (True, \<lparr>ios = map (\<lambda>m. m\<lparr>valueUL := 0\<rparr>) (ios (readIOs example_platform example_world)),
               trace = trace (readIOs example_platform example_world) @
                 [app_core_msg_ul_addTLV (UL_APP_IO_STATE example_platform) 12 ds]\<rparr>)"
    by blast
  have t: "trace (snd (getData example_platform example_world)) =
      [GPIO_read 7, app_core_msg_ul_addTLV 240 12 [0, 2, 1, 0, 0, 0, 0, 0, 1]]"
    by code_simp
  from g t have "trace (readIOs example_platform example_world) @
      [app_core_msg_ul_addTLV (UL_APP_IO_STATE example_platform) 12 ds] =
      [GPIO_read 7, app_core_msg_ul_addTLV 240 12 [0, 2, 1, 0, 0, 0, 0, 0, 1]]"
    by simp
  with g h show ?thesis by simp
qed

lemma last_report_snoc [simp]:
  "last_report \<lparr>ios = xs, trace = cs @ [app_core_msg_ul_addTLV t l ds]\<rparr> = ds"
  by (simp add: last_report_def)

lemma wf_getData: "wf w \<Longrightarrow> wf (snd (getData P w))"
  by (simp add: getData_eq wf_def readIOs_slotwise)

lemma getData_ios: "wf w \<Longrightarrow> ios (snd (getData P w)) = map (\<lambda>m. (readIO_slot P m)\<lparr>valueUL := 0\<rparr>) (ios w)"
  by (simp add: getData_eq readIOs_ios)

lemma getData_report:
  "wf w \<Longrightarrow> last_report (snd (getData P w)) =
     map (\<lambda>m. valueUL (readIO_slot P m)) (ios w) @ [if AppCore_isDeviceActive P then 1 else 0]"
  by (simp add: getData_eq readIOs_ios)

text \<open>
  The second of two reports, run on the example: the digital input on pin 7 still samples
  1, and byte 2 of the second report is 1 again.
\<close>

theorem second_getData_report_counterexample:
  "take NB_IOS (last_report (snd (getData example_platform (snd (getData example_platform example_world)))))
     = [0, 0, 1, 0, 0, 0, 0, 0]"
  by code_simp

text \<open>
  Claim C6, amended. For two calls of \<^verbatim>\<open>getData\<close> in a row, with the same samples on
  the pins and no callback in between, byte \<open>i\<close> of the second report is 0 for every
  slot that is not polled: a slot without a pin, an output, a button or a state input.
  For a digital or analog input with a pin, the byte is the sample taken by that second
  call: \<^verbatim>\<open>getData\<close> reads every polled slot anew before it builds the report.
\<close>

theorem second_getData_report:
  assumes "wf w" "i < NB_IOS"
  shows "last_report (snd (getData P (snd (getData P w)))) ! i =
     (if 0 \<le> sint (gpio (ios w ! i)) \<and> type (ios w ! i) = IO_DIN
        then word_of_int (GPIO_read_result P (gpio (ios w ! i)))
      else if 0 \<le> sint (gpio (ios w ! i)) \<and> type (ios w ! i) = IO_AIN
        then word_of_int (GPIO_readADC_result P (gpio (ios w ! i)))
      else 0)"
proof -
  from assms have i: "i < length (ios w)" by (simp add: wf_def)
  have "last_report (snd (getData P (snd (getData P w)))) ! i =
      valueUL (readIO_slot P ((readIO_slot P (ios w ! i))\<lparr>valueUL := 0\<rparr>))"
    using assms(1) i by (simp add: getData_report wf_getData getData_ios nth_append)
  also have "\<dots> = (if 0 \<le> sint (gpio (ios w ! i)) \<and> type (ios w ! i) = IO_DIN
        then word_of_int (GPIO_read_result P (gpio (ios w ! i)))
      else if 0 \<le> sint (gpio (ios w ! i)) \<and> type (ios w ! i) = IO_AIN
        then word_of_int (GPIO_readADC_result P (gpio (ios w ! i)))
      else 0)"
    by (simp add: readIO_slot_def split: IO_TYPE.splits)
  finally show ?thesis .
qed

theorem second_getData_report_witness:
  "wf example_world \<and> (1::nat) < NB_IOS \<and> 2 < NB_IOS
   \<and> last_report (snd (getData example_platform (snd (getData example_platform example_world)))) ! 1 = 0
   \<and> last_report (snd (getData example_platform (snd (getData example_platform example_world)))) ! 2 = 1"
proof -
  have h1: "wf example_world" by (rule wf_example_world)
  have h2: "(1::nat) < NB_IOS" and h3: "2 < NB_IOS" by (simp_all add: NB_IOS_def)
  have a: "type (ios example_world ! 1) = IO_BUTTON"
    "type (ios example_world ! 2) = IO_DIN" "0 \<le> sint (gpio (ios example_world ! 2))"
    "(word_of_int (GPIO_read_result example_platform (gpio (ios example_world ! 2))) :: uint8_t) = 1"
    by code_simp+
  from second_getData_report [OF h1 h2, of example_platform]
    second_getData_report [OF h1 h3, of example_platform] a h1 h2 h3
  show ?thesis by simp
qed

subsection \<open>Writing and the downlink action\<close>

lemma writeIO_ios: "ios (writeIO ioid v w) = ios w"
  by (simp add: writeIO_def Let_def split: IO_TYPE.splits)

lemma writeIO_trace:
  "trace (writeIO (int i) v w) =
     trace w @ (if i < NB_IOS \<and> 0 \<le> sint (gpio (ios w ! i)) \<and> type (ios w ! i) = IO_DOUT
                then [GPIO_write (gpio (ios w ! i)) (valueDL (ios w ! i))] else [])"
  by (simp add: writeIO_def Let_def split: IO_TYPE.splits)

lemma writeIO_noop:
  "ioid < 0 \<or> int NB_IOS \<le> ioid \<or> sint (gpio (ios w ! nat ioid)) < 0
     \<or> type (ios w ! nat ioid) \<noteq> IO_DOUT \<Longrightarrow> writeIO ioid v w = w"
  by (auto simp add: writeIO_def Let_def split: IO_TYPE.splits)

lemma iosetAction_rounds_no_fault:
  "n \<le> length v \<Longrightarrow>
   fold (iosetAction_round v) [0..<n] (Inr w) =
     Inr (fold (\<lambda>i w. if type (ios w ! i) = IO_DOUT \<or> type (ios w ! i) = IO_PWMOUT
                        then writeIO (int i) (v ! i) (set_io i (\<lambda>m. m\<lparr>valueDL := v ! i\<rparr>) w)
                        else w) [0..<n] w)"
  by (induction n) (simp_all add: iosetAction_round_def)

lemma iosetAction_slotwise:
  assumes "wf w" "length v = NB_IOS" "unat l = NB_IOS"
  shows "\<exists>w'. iosetAction v l w = Inr w' \<and> length (ios w') = NB_IOS
     \<and> (\<forall>j < NB_IOS. ios w' ! j =
           (if type (ios w ! j) = IO_DOUT \<or> type (ios w ! j) = IO_PWMOUT
            then (ios w ! j)\<lparr>valueDL := v ! j\<rparr> else ios w ! j))
     \<and> trace w' = trace w @ concat (map (\<lambda>i.
           if 0 \<le> sint (gpio (ios w ! i)) \<and> type (ios w ! i) = IO_DOUT
           then [GPIO_write (gpio (ios w ! i)) (v ! i)] else []) [0..<NB_IOS])"
proof -
  let ?f = "\<lambda>i w. if type (ios w ! i) = IO_DOUT \<or> type (ios w ! i) = IO_PWMOUT
                   then writeIO (int i) (v ! i) (set_io i (\<lambda>m. m\<lparr>valueDL := v ! i\<rparr>) w)
                   else w"
  let ?g = "\<lambda>i m. if type m = IO_DOUT \<or> type m = IO_PWMOUT then m\<lparr>valueDL := v ! i\<rparr> else m"
  let ?e = "\<lambda>i m. if 0 \<le> sint (gpio m) \<and> type m = IO_DOUT then [GPIO_write (gpio m) (v ! i)] else []"
  have len: "NB_IOS \<le> length (ios w)" using assms by (simp add: wf_def)
  have step: "\<And>i w. i < NB_IOS \<Longrightarrow> i < length (ios w) \<Longrightarrow>
      ios (?f i w) = (ios w)[i := ?g i (ios w ! i)]"
    by (simp add: writeIO_ios)
  have tr: "\<And>i w. i < NB_IOS \<Longrightarrow> i < length (ios w) \<Longrightarrow>
      trace (?f i w) = trace w @ ?e i (ios w ! i)"
    by (auto simp add: writeIO_trace)
  note * = fold_slotwise [where f = ?f and N = NB_IOS and n = NB_IOS and g = ?g and e = ?e
      and w = w, OF step tr order_refl len]
  have eq: "iosetAction v l w = Inr (fold ?f [0..<NB_IOS] w)"
    using assms by (simp add: iosetAction_def iosetAction_rounds_no_fault)
  show ?thesis
    unfolding eq using * assms(1) by (simp add: wf_def)
qed

lemma concat_map_if_filter:
  "concat (map (\<lambda>i. if Q i then [h i] else []) xs) = map h (filter Q xs)"
  by (induction xs) simp_all

text \<open>
  Claim C4. For a buffer of exactly \<open>NB_IOS\<close> bytes, \<^verbatim>\<open>iosetAction\<close> returns without a
  fault; every slot of type \<^verbatim>\<open>IO_DOUT\<close> or \<^verbatim>\<open>IO_PWMOUT\<close> has its \<open>valueDL\<close> set to the
  byte at its index and no other field changed; every other slot is unchanged. The
  write path is entered for each output slot, in the order of the indices: its calls
  are one \<^verbatim>\<open>GPIO_write\<close> of the byte on the pin of each \<^verbatim>\<open>IO_DOUT\<close> slot that has a pin
  (\<^verbatim>\<open>writeIO\<close> has no call to make for \<^verbatim>\<open>IO_PWMOUT\<close> or for a slot without a pin).
\<close>

theorem iosetAction_sets_outputs:
  assumes "wf w" "length v = NB_IOS" "unat l = length v"
  shows "\<exists>w'. iosetAction v l w = Inr w' \<and> length (ios w') = NB_IOS
     \<and> (\<forall>i < NB_IOS.
           if type (ios w ! i) = IO_DOUT \<or> type (ios w ! i) = IO_PWMOUT
           then ios w' ! i = (ios w ! i)\<lparr>valueDL := v ! i\<rparr>
           else ios w' ! i = ios w ! i)
     \<and> trace w' = trace w @
           map (\<lambda>i. GPIO_write (gpio (ios w ! i)) (v ! i))
             (filter (\<lambda>i. 0 \<le> sint (gpio (ios w ! i)) \<and> type (ios w ! i) = IO_DOUT) [0..<NB_IOS])"
proof -
  from assms have l: "unat l = NB_IOS" by simp
  from iosetAction_slotwise [OF assms(1,2) l]
  obtain w' where w': "iosetAction v l w = Inr w'" "length (ios w') = NB_IOS"
    "\<forall>j < NB_IOS. ios w' ! j =
           (if type (ios w ! j) = IO_DOUT \<or> type (ios w ! j) = IO_PWMOUT
            then (ios w ! j)\<lparr>valueDL := v ! j\<rparr> else ios w ! j)"
    "trace w' = trace w @ concat (map (\<lambda>i.
           if 0 \<le> sint (gpio (ios w ! i)) \<and> type (ios w ! i) = IO_DOUT
           then [GPIO_write (gpio (ios w ! i)) (v ! i)] else []) [0..<NB_IOS])"
    by blast
  from w'(3) have "\<forall>i < NB_IOS.
           if type (ios w ! i) = IO_DOUT \<or> type (ios w ! i) = IO_PWMOUT
           then ios w' ! i = (ios w ! i)\<lparr>valueDL := v ! i\<rparr>
           else ios w' ! i = ios w ! i"
    by simp
  with w'(1,2,4) show ?thesis
    by (simp add: concat_map_if_filter)
qed

theorem iosetAction_sets_outputs_witness:
  "wf example_world \<and> length [1, 0, 1, 1, 0, 0, 0, 0 :: uint8_t] = NB_IOS
   \<and> unat (8 :: uint8_t) = length [1, 0, 1, 1, 0, 0, 0, 0 :: uint8_t]
   \<and> map_sum id trace (iosetAction [1, 0, 1, 1, 0, 0, 0, 0] 8 example_world) = Inr [GPIO_write 5 1]
   \<and> map_sum id (map valueDL \<circ> ios) (iosetAction [1, 0, 1, 1, 0, 0, 0, 0] 8 example_world) =
       Inr [1, 0, 0, 1, 0, 0, 0, 0]"
proof -
  have h1: "wf example_world" by (rule wf_example_world)
  have h2: "length [1, 0, 1, 1, 0, 0, 0, 0 :: uint8_t] = NB_IOS" by (simp add: NB_IOS_def)
  have h3: "unat (8 :: uint8_t) = length [1, 0, 1, 1, 0, 0, 0, 0 :: uint8_t]" by simp
  from iosetAction_sets_outputs [OF h1 h2 h3]
  obtain w' where w': "iosetAction [1, 0, 1, 1, 0, 0, 0, 0] 8 example_world = Inr w'"
    by blast
  have t1: "map_sum id trace (iosetAction [1, 0, 1, 1, 0, 0, 0, 0] 8 example_world) =
      Inr [GPIO_write 5 1]"
    by code_simp
  have t2: "map_sum id (map valueDL \<circ> ios) (iosetAction [1, 0, 1, 1, 0, 0, 0, 0] 8 example_world) =
      Inr [1, 0, 0, 1, 0, 0, 0, 0]"
    by code_simp
  from t1 t2 have "trace w' = [GPIO_write 5 1]" "map valueDL (ios w') = [1, 0, 0, 1, 0, 0, 0, 0]"
    unfolding w' by simp_all
  then show ?thesis unfolding w' using h1 h2 h3 by simp
qed

text \<open>
  Claim C3. A buffer whose length is not \<open>NB_IOS\<close> (\<open>l\<close> being its length) is rejected
  as a whole: \<^verbatim>\<open>iosetAction\<close> returns with the context and the trace as they were, so
  no field of any slot changes and no call is made.
\<close>

theorem iosetAction_rejects_wrong_length:
  assumes "unat l = length v" "length v \<noteq> NB_IOS"
  shows "iosetAction v l w = Inr w"
  using assms by (simp add: iosetAction_def)

theorem iosetAction_rejects_wrong_length_witness:
  "unat (3 :: uint8_t) = length [1, 1, 1 :: uint8_t] \<and> length [1, 1, 1 :: uint8_t] \<noteq> NB_IOS
   \<and> iosetAction [1, 1, 1] 3 example_world = Inr example_world"
proof -
  have h1: "unat (3 :: uint8_t) = length [1, 1, 1 :: uint8_t]" by simp
  have h2: "length [1, 1, 1 :: uint8_t] \<noteq> NB_IOS" by (simp add: NB_IOS_def)
  from iosetAction_rejects_wrong_length [OF h1 h2, of example_world] h1 h2
  show ?thesis by blast
qed

subsection \<open>Definition of a slot\<close>

text \<open>
  Claim C2, on the example: \<^verbatim>\<open>defineIO\<close> with index 8 stores through
  \<^verbatim>\<open>_ctx.ios[8]\<close>, outside the array; nothing in the function tests the index.
\<close>

theorem defineIO_unchecked_index:
  "defineIO 8 5 ''x'' IO_DOUT 0 1 example_world = Inl OutOfBoundsWrite"
  by code_simp

text \<open>Within the bounds, \<^verbatim>\<open>defineIO\<close> writes the five fields of that one slot.\<close>

lemma defineIO_in_range:
  assumes "0 \<le> ioid" "ioid < int NB_IOS" "wf w"
  shows "\<exists>w'. defineIO ioid g nm t p iv w = Inr w' \<and> trace w' = trace w
     \<and> length (ios w') = NB_IOS
     \<and> ios w' ! nat ioid = \<lparr>gpio = word_of_int g, name = nm, type = t, pull = p, valueDL = iv,
                             valueUL = valueUL (ios w ! nat ioid)\<rparr>
     \<and> (\<forall>j < NB_IOS. j \<noteq> nat ioid \<longrightarrow> ios w' ! j = ios w ! j)"
  using assms by (simp add: defineIO_def wf_def)

subsection \<open>The callbacks\<close>

text \<open>
  Claim C7. With the device active and a context inside \<open>[0, NB_IOS)\<close>: on
  \<^verbatim>\<open>SR_BUTTON_RELEASED\<close>, \<^verbatim>\<open>buttonChangeCB\<close> stores the press type in the \<open>valueUL\<close> of
  that slot (as a byte: a press type in \<open>[0, 256)\<close> is stored as it is), changes no
  other field or slot, and forces the uplink exactly once: after the three getters its
  log line asks the button manager for, its one call is \<^verbatim>\<open>AppCore_forceUL(MY_MOD_ID)\<close>.
  On any other state it changes nothing and makes no call.
\<close>

theorem buttonChangeCB_release_and_press:
  assumes "AppCore_isDeviceActive P" "0 \<le> ctx" "ctx < int NB_IOS" "wf w"
  shows "(st = SR_BUTTON_RELEASED P \<longrightarrow>
            buttonChangeCB P ctx st pt w =
              \<lparr>ios = (ios w)[nat ctx := (ios w ! nat ctx)\<lparr>valueUL := word_of_int pt\<rparr>],
               trace = trace w @
                 [SRMgr_getLastButtonReleaseTS (gpio (ios w ! nat ctx)),
                  SRMgr_getLastButtonPressTS (gpio (ios w ! nat ctx)),
                  SRMgr_getLastButtonPressType (gpio (ios w ! nat ctx)),
                  AppCore_forceUL (MY_MOD_ID P)]\<rparr>
          \<and> (0 \<le> pt \<and> pt < 256 \<longrightarrow>
                uint (valueUL (ios (buttonChangeCB P ctx st pt w) ! nat ctx)) = pt))
       \<and> (st \<noteq> SR_BUTTON_RELEASED P \<longrightarrow> buttonChangeCB P ctx st pt w = w)"
proof -
  from assms have i: "nat ctx < length (ios w)" by (simp add: wf_def)
  have small: "0 \<le> pt \<and> pt < 256 \<Longrightarrow> uint (word_of_int pt :: uint8_t) = pt"
    by (simp add: uint_word_of_int take_bit_int_eq_self)
  show ?thesis
    using assms(1-3) i small
    by (simp add: buttonChangeCB_def set_io_def emit_def)
qed

theorem buttonChangeCB_release_and_press_witness:
  "AppCore_isDeviceActive example_platform \<and> (0::int) \<le> 1 \<and> 1 < int NB_IOS \<and> wf example_world
   \<and> buttonChangeCB example_platform 1 0 4 example_world =
       \<lparr>ios = (ios example_world)[1 := (ios example_world ! 1)\<lparr>valueUL := 4\<rparr>],
        trace = [SRMgr_getLastButtonReleaseTS 6, SRMgr_getLastButtonPressTS 6,
                 SRMgr_getLastButtonPressType 6, AppCore_forceUL 3]\<rparr>
   \<and> valueUL (ios example_world ! 1) = 2
   \<and> buttonChangeCB example_platform 1 1 0 example_world = example_world"
proof -
  have h1: "AppCore_isDeviceActive example_platform" by (simp add: example_platform_def)
  have h2: "(0::int) \<le> 1" by simp
  have h3: "1 < int NB_IOS" by (simp add: NB_IOS_def)
  have h4: "wf example_world" by (rule wf_example_world)
  have r: "(0::int) = SR_BUTTON_RELEASED example_platform"
    and p: "(1::int) \<noteq> SR_BUTTON_RELEASED example_platform"
    and m: "MY_MOD_ID example_platform = 3" and t: "trace example_world = []"
    by (simp_all add: example_platform_def example_world_def)
  have g: "gpio (ios example_world ! nat 1) = 6" "valueUL (ios example_world ! 1) = 2"
    by code_simp+
  from buttonChangeCB_release_and_press [OF h1 h2 h3 h4, of 0 4] r m t g
  have a: "buttonChangeCB example_platform 1 0 4 example_world =
       \<lparr>ios = (ios example_world)[1 := (ios example_world ! 1)\<lparr>valueUL := 4\<rparr>],
        trace = [SRMgr_getLastButtonReleaseTS 6, SRMgr_getLastButtonPressTS 6,
                 SRMgr_getLastButtonPressType 6, AppCore_forceUL 3]\<rparr>"
    by simp
  from buttonChangeCB_release_and_press [OF h1 h2 h3 h4, of 1 0] p
  have b: "buttonChangeCB example_platform 1 1 0 example_world = example_world"
    by simp
  from h1 h2 h3 h4 a b g show ?thesis by simp
qed

text \<open>
  Claim C8. While the device is not active, and for a context outside \<open>[0, NB_IOS)\<close>,
  both callbacks leave every slot as it was and make no call.
\<close>

theorem callbacks_ignore_inactive_or_bad_index:
  assumes "\<not> AppCore_isDeviceActive P \<or> ctx < 0 \<or> int NB_IOS \<le> ctx"
  shows "buttonChangeCB P ctx st pt w = w \<and> stateInputChangeCB P ctx st pt w = w"
  using assms by (auto simp add: buttonChangeCB_def stateInputChangeCB_def)

theorem callbacks_ignore_inactive_or_bad_index_witness:
  "\<not> AppCore_isDeviceActive (example_platform\<lparr>AppCore_isDeviceActive := False\<rparr>)
   \<and> buttonChangeCB (example_platform\<lparr>AppCore_isDeviceActive := False\<rparr>) 1 0 2 example_world
       = example_world
   \<and> stateInputChangeCB (example_platform\<lparr>AppCore_isDeviceActive := False\<rparr>) 1 1 0 example_world
       = example_world
   \<and> int NB_IOS \<le> 8
   \<and> buttonChangeCB example_platform 8 0 2 example_world = example_world
   \<and> stateInputChangeCB example_platform 8 1 0 example_world = example_world"
proof -
  have h1: "\<not> AppCore_isDeviceActive (example_platform\<lparr>AppCore_isDeviceActive := False\<rparr>)"
    by simp
  have h2: "int NB_IOS \<le> 8" by (simp add: NB_IOS_def)
  from h1 have d1: "\<not> AppCore_isDeviceActive (example_platform\<lparr>AppCore_isDeviceActive := False\<rparr>)
      \<or> (1::int) < 0 \<or> int NB_IOS \<le> 1" by simp
  from h2 have d2: "\<not> AppCore_isDeviceActive example_platform \<or> (8::int) < 0 \<or> int NB_IOS \<le> 8"
    by simp
  from callbacks_ignore_inactive_or_bad_index [OF d1, of 0 2 example_world]
    callbacks_ignore_inactive_or_bad_index [OF d1, of 1 0 example_world]
    callbacks_ignore_inactive_or_bad_index [OF d2, of 0 2 example_world]
    callbacks_ignore_inactive_or_bad_index [OF d2, of 1 0 example_world]
    h1 h2
  show ?thesis by simp
qed

subsection \<open>Writing one slot\<close>

text \<open>
  Claim C1. \<^verbatim>\<open>writeIO\<close> hands \<^verbatim>\<open>GPIO_write\<close> the \<open>valueDL\<close> of the slot. Its one caller,
  \<^verbatim>\<open>iosetAction\<close>, stores the byte in \<open>valueDL\<close> on the line before the call, so at every
  call the argument is the stored value. In that state, for an index in
  \<open>[0, NB_IOS)\<close> whose slot has a pin and type \<^verbatim>\<open>IO_DOUT\<close>, \<^verbatim>\<open>writeIO\<close> makes exactly one
  call, \<^verbatim>\<open>GPIO_write\<close> of the argument on the pin, and changes no slot. For an index
  outside the range, a slot without a pin or a slot of another type it makes no call
  and changes nothing, whatever the stored value.
\<close>

theorem writeIO_drives_output:
  "(0 \<le> ioid \<and> ioid < int NB_IOS \<and> 0 \<le> sint (gpio (ios w ! nat ioid))
      \<and> type (ios w ! nat ioid) = IO_DOUT \<and> valueDL (ios w ! nat ioid) = val
     \<longrightarrow> writeIO ioid val w =
           \<lparr>ios = ios w, trace = trace w @ [GPIO_write (gpio (ios w ! nat ioid)) val]\<rparr>)
   \<and> (ioid < 0 \<or> int NB_IOS \<le> ioid \<or> sint (gpio (ios w ! nat ioid)) < 0
        \<or> type (ios w ! nat ioid) \<noteq> IO_DOUT
     \<longrightarrow> writeIO ioid val w = w)"
  by (auto simp add: writeIO_def Let_def emit_def split: IO_TYPE.splits)

theorem writeIO_drives_output_witness:
  "iosetAction_round [1, 0, 1, 1, 0, 0, 0, 0] 0 (Inr example_world) =
     Inr (writeIO 0 1 (set_io 0 (\<lambda>m. m\<lparr>valueDL := 1\<rparr>) example_world))
   \<and> valueDL (ios example_world ! 0) = 0
   \<and> writeIO 0 1 (set_io 0 (\<lambda>m. m\<lparr>valueDL := 1\<rparr>) example_world) =
       \<lparr>ios = ios (set_io 0 (\<lambda>m. m\<lparr>valueDL := 1\<rparr>) example_world), trace = [GPIO_write 5 1]\<rparr>
   \<and> writeIO 8 1 example_world = example_world
   \<and> writeIO 3 1 example_world = example_world
   \<and> writeIO 2 1 example_world = example_world"
proof -
  let ?w = "set_io 0 (\<lambda>m. m\<lparr>valueDL := 1\<rparr>) example_world"
  have c: "iosetAction_round [1, 0, 1, 1, 0, 0, 0, 0] 0 (Inr example_world) =
      Inr (writeIO 0 1 ?w)"
    "valueDL (ios example_world ! 0) = 0"
    by code_simp+
  have a: "(0::int) \<le> 0 \<and> 0 < int NB_IOS \<and> 0 \<le> sint (gpio (ios ?w ! nat 0))
      \<and> type (ios ?w ! nat 0) = IO_DOUT \<and> valueDL (ios ?w ! nat 0) = 1"
    by code_simp
  have g: "gpio (ios ?w ! nat 0) = 5" "trace ?w = []" by code_simp+
  have b: "int NB_IOS \<le> 8" "sint (gpio (ios example_world ! nat 3)) < 0"
    "type (ios example_world ! nat 2) \<noteq> IO_DOUT"
    by code_simp+
  from writeIO_drives_output [of 0 ?w 1] a g
  have 1: "writeIO 0 1 ?w = \<lparr>ios = ios ?w, trace = [GPIO_write 5 1]\<rparr>" by simp
  from writeIO_drives_output [of 8 example_world 1] b(1)
  have 2: "writeIO 8 1 example_world = example_world" by simp
  from writeIO_drives_output [of 3 example_world 1] b(2)
  have 3: "writeIO 3 1 example_world = example_world" by simp
  from writeIO_drives_output [of 2 example_world 1] b(3)
  have 4: "writeIO 2 1 example_world = example_world" by simp
  from c 1 2 3 4 show ?thesis by simp
qed

subsection \<open>The states the module reaches\<close>

lemma appends_refl [simp]: "appends Q w w"
  by (simp add: appends_def)

lemma appends_trans: "appends Q w w1 \<Longrightarrow> appends Q w1 w2 \<Longrightarrow> appends Q w w2"
  by (auto simp add: appends_def)

lemma appends_mono: "appends Q w w' \<Longrightarrow> (\<And>c. Q c \<Longrightarrow> Q' c) \<Longrightarrow> appends Q' w w'"
  by (auto simp add: appends_def list_all_iff)

lemma appends_new_calls: "appends Q w w' \<Longrightarrow> list_all Q (new_calls w w')"
  by (auto simp add: appends_def new_calls_def)

lemma appendsI: "trace w' = trace w @ cs \<Longrightarrow> list_all Q cs \<Longrightarrow> appends Q w w'"
  by (auto simp add: appends_def)

lemma fold_appends:
  assumes "\<And>i u. i \<in> set xs \<Longrightarrow> R u \<Longrightarrow> R (f i u) \<and> appends Q u (f i u)" and "R w"
  shows "R (fold f xs w) \<and> appends Q w (fold f xs w)"
  using assms
proof (induction xs arbitrary: w)
  case Nil
  then show ?case by simp
next
  case (Cons x xs)
  from Cons.prems(1) [of x w] Cons.prems(2)
  have 1: "R (f x w)" "appends Q w (f x w)" by simp_all
  have "R (fold f xs (f x w)) \<and> appends Q (f x w) (fold f xs (f x w))"
    by (rule Cons.IH) (use Cons.prems(1) 1 in auto)
  with 1 show ?case by (auto intro: appends_trans)
qed

lemma quiet_pins_ok: "quiet c \<Longrightarrow> pins_ok c"
  by (simp add: quiet_def)

lemma quiet_reg_ok: "quiet c \<Longrightarrow> reg_ok T c"
  by (cases c) (simp_all add: quiet_def reg_ok_def)

lemma no_access_pins_ok:
  assumes "sint (gpio m) < 0" "list_all pins_ok cs"
  shows "no_access m cs"
proof -
  have "p \<noteq> gpio m \<and> 0 \<le> sint p" if "c \<in> set cs" "p \<in> set (call_pins c)" for c p
  proof -
    from that assms(2) have "0 \<le> sint p" by (auto simp add: pins_ok_def list_all_iff)
    with assms(1) show ?thesis by auto
  qed
  then show ?thesis by (simp add: no_access_def list_all_iff)
qed

lemma list_all_concat_map:
  "(\<And>x. x \<in> set xs \<Longrightarrow> list_all Q (e x)) \<Longrightarrow> list_all Q (concat (map e xs))"
  by (induction xs) simp_all

lemma initIO_ios: "ios (initIO P i w) = ios w"
  by (simp add: initIO_def Let_def split: IO_TYPE.splits)

lemma initIO_appends:
  "i < NB_IOS \<Longrightarrow> appends (\<lambda>c. pins_ok c \<and> reg_ok (ios w) c) w (initIO P i w)"
  by (simp add: initIO_def Let_def appends_def pins_ok_def reg_ok_def split: IO_TYPE.splits)

lemma initIO_unassigned: "sint (gpio (ios w ! i)) < 0 \<Longrightarrow> initIO P i w = w"
  by (simp add: initIO_def Let_def)

lemma initIOs_facts:
  "ios (initIOs P w) = ios w \<and> appends (\<lambda>c. pins_ok c \<and> reg_ok (ios w) c) w (initIOs P w)"
  unfolding initIOs_def
proof (rule fold_appends [where R = "\<lambda>u :: world. ios u = ios w"])
  fix i and u :: world
  assume "i \<in> set [0..<NB_IOS]" and u: "ios u = ios w"
  then have "i < NB_IOS" by simp
  from initIO_appends [OF this, of u P] u
  show "ios (initIO P i u) = ios w \<and> appends (\<lambda>c. pins_ok c \<and> reg_ok (ios w) c) u (initIO P i u)"
    by (simp add: initIO_ios)
qed simp

lemma readIO_slot_gpio [simp]: "gpio (readIO_slot P m) = gpio m"
  by (simp add: readIO_slot_def split: IO_TYPE.splits)

lemma readIO_slot_unassigned: "sint (gpio m) < 0 \<Longrightarrow> readIO_slot P m = m"
  by (simp add: readIO_slot_def)

lemma readIO_calls_quiet: "list_all quiet (readIO_calls m)"
  by (simp add: readIO_calls_def quiet_def pins_ok_def split: IO_TYPE.splits)

lemma readIO_out_of_range: "ioid < 0 \<or> int NB_IOS \<le> ioid \<Longrightarrow> readIO P ioid w = (0, w)"
  by (auto simp add: readIO_def)

lemma readIO_step_ok: "wf w \<Longrightarrow> step_ok w (snd (readIO P j w))"
proof (cases "0 \<le> j \<and> j < int NB_IOS")
  case False
  assume "wf w"
  with False show ?thesis
    by (auto simp add: readIO_out_of_range step_ok_def)
next
  case True
  assume w: "wf w"
  define i where "i = nat j"
  with True have i: "i < NB_IOS" "j = int i" by auto
  have "wf (snd (readIO P (int i) w))"
    using w i(1) by (simp add: wf_def readIO_ios)
  moreover have "\<forall>k < NB_IOS. gpio (ios (snd (readIO P (int i) w)) ! k) = gpio (ios w ! k)
      \<and> (sint (gpio (ios w ! k)) < 0 \<longrightarrow>
            ios (snd (readIO P (int i) w)) ! k
              = (ios w ! k)\<lparr>valueDL := valueDL (ios (snd (readIO P (int i) w)) ! k)\<rparr>)"
    using w i(1) by (simp add: wf_def readIO_ios nth_list_update readIO_slot_unassigned)
  moreover have "appends quiet w (snd (readIO P (int i) w))"
    using i(1) by (intro appendsI [OF readIO_trace] readIO_calls_quiet)
  ultimately show ?thesis by (simp add: step_ok_def i(2))
qed

lemma writeIO_appends: "appends quiet w (writeIO j v w)"
  by (simp add: writeIO_def Let_def appends_def quiet_def pins_ok_def split: IO_TYPE.splits)

lemma writeIO_step_ok: "wf w \<Longrightarrow> step_ok w (writeIO j v w)"
  by (simp add: step_ok_def writeIO_ios writeIO_appends wf_def)

lemma readIOs_step_ok: "wf w \<Longrightarrow> step_ok w (readIOs P w)"
proof -
  assume w: "wf w"
  have "appends quiet w (readIOs P w)"
    by (rule appendsI [OF readIOs_slotwise(3) [OF w]])
      (simp add: list_all_concat_map readIO_calls_quiet)
  with w show ?thesis
    by (simp add: step_ok_def wf_def readIOs_slotwise readIO_slot_unassigned)
qed

lemma getData_step_ok:
  assumes "wf w" "\<forall>k < NB_IOS. sint (gpio (ios w ! k)) < 0 \<longrightarrow> valueUL (ios w ! k) = 0"
  shows "step_ok w (snd (getData P w))"
proof -
  from readIOs_step_ok [OF assms(1), of P] obtain cs where
    cs: "trace (readIOs P w) = trace w @ cs" "list_all quiet cs"
    by (auto simp add: step_ok_def appends_def)
  have a: "appends quiet w (snd (getData P w))"
    by (rule appendsI [where cs = "cs @ [app_core_msg_ul_addTLV (UL_APP_IO_STATE P) 12
          (map valueUL (ios (readIOs P w)) @ [if AppCore_isDeviceActive P then 1 else 0])]"])
      (simp_all add: getData_eq [OF assms(1)] cs quiet_def pins_ok_def)
  have len: "length (ios w) = NB_IOS" using assms(1) by (simp add: wf_def)
  have z: "m\<lparr>valueUL := 0\<rparr> = m" if "valueUL m = 0" for m :: mio
    using that by (cases m) simp
  have "\<forall>k < NB_IOS. gpio (ios (snd (getData P w)) ! k) = gpio (ios w ! k)
      \<and> (sint (gpio (ios w ! k)) < 0 \<longrightarrow>
            ios (snd (getData P w)) ! k = (ios w ! k)\<lparr>valueDL := valueDL (ios (snd (getData P w)) ! k)\<rparr>)"
    using assms(2) len by (simp add: getData_ios [OF assms(1)] readIO_slot_unassigned z)
  with a wf_getData [OF assms(1), of P] show ?thesis by (simp add: step_ok_def)
qed

lemma iosetAction_round_Inl: "iosetAction_round v i (Inl e) = Inl e"
  by (simp add: iosetAction_round_def)

lemma fold_iosetAction_round_Inl: "fold (iosetAction_round v) xs (Inl e) = Inl e"
  by (induction xs) (simp_all add: iosetAction_round_Inl)

lemma fold_iosetAction_round_Inr:
  "fold (iosetAction_round v) xs (Inr w) = Inr w' \<Longrightarrow>
   fold (\<lambda>i w. if type (ios w ! i) = IO_DOUT \<or> type (ios w ! i) = IO_PWMOUT
                then writeIO (int i) (v ! i) (set_io i (\<lambda>m. m\<lparr>valueDL := v ! i\<rparr>) w)
                else w) xs w = w'"
proof (induction xs arbitrary: w)
  case Nil
  then show ?case by simp
next
  case (Cons x xs)
  show ?case
  proof (cases "iosetAction_round v x (Inr w)")
    case (Inl e)
    with Cons.prems show ?thesis by (simp add: fold_iosetAction_round_Inl)
  next
    case (Inr w1)
    then have w1: "w1 = (if type (ios w ! x) = IO_DOUT \<or> type (ios w ! x) = IO_PWMOUT
                then writeIO (int x) (v ! x) (set_io x (\<lambda>m. m\<lparr>valueDL := v ! x\<rparr>) w)
                else w)"
      by (auto simp add: iosetAction_round_def split: if_splits)
    from Inr Cons.prems have "fold (iosetAction_round v) xs (Inr w1) = Inr w'" by simp
    from Cons.IH [OF this] w1 show ?thesis by simp
  qed
qed

lemma iosetAction_exact:
  assumes "wf w" "iosetAction v l w = Inr w'" "unat l = NB_IOS"
  shows "length (ios w') = NB_IOS"
    and "\<forall>j < NB_IOS. ios w' ! j =
           (if type (ios w ! j) = IO_DOUT \<or> type (ios w ! j) = IO_PWMOUT
            then (ios w ! j)\<lparr>valueDL := v ! j\<rparr> else ios w ! j)"
    and "trace w' = trace w @ concat (map (\<lambda>i.
           if 0 \<le> sint (gpio (ios w ! i)) \<and> type (ios w ! i) = IO_DOUT
           then [GPIO_write (gpio (ios w ! i)) (v ! i)] else []) [0..<NB_IOS])"
proof -
  let ?f = "\<lambda>i w. if type (ios w ! i) = IO_DOUT \<or> type (ios w ! i) = IO_PWMOUT
                   then writeIO (int i) (v ! i) (set_io i (\<lambda>m. m\<lparr>valueDL := v ! i\<rparr>) w)
                   else w"
  let ?g = "\<lambda>i m. if type m = IO_DOUT \<or> type m = IO_PWMOUT then m\<lparr>valueDL := v ! i\<rparr> else m"
  let ?e = "\<lambda>i m. if 0 \<le> sint (gpio m) \<and> type m = IO_DOUT then [GPIO_write (gpio m) (v ! i)] else []"
  have len: "NB_IOS \<le> length (ios w)" using assms(1) by (simp add: wf_def)
  have step: "\<And>i w. i < NB_IOS \<Longrightarrow> i < length (ios w) \<Longrightarrow>
      ios (?f i w) = (ios w)[i := ?g i (ios w ! i)]"
    by (simp add: writeIO_ios)
  have tr: "\<And>i w. i < NB_IOS \<Longrightarrow> i < length (ios w) \<Longrightarrow>
      trace (?f i w) = trace w @ ?e i (ios w ! i)"
    by (auto simp add: writeIO_trace)
  note * = fold_slotwise [where f = ?f and N = NB_IOS and n = NB_IOS and g = ?g and e = ?e
      and w = w, OF step tr order_refl len]
  from assms(2,3) have "fold (iosetAction_round v) [0..<NB_IOS] (Inr w) = Inr w'"
    by (simp add: iosetAction_def)
  then have eq: "fold ?f [0..<NB_IOS] w = w'" by (rule fold_iosetAction_round_Inr)
  from * assms(1) show "length (ios w') = NB_IOS" unfolding eq by (simp add: wf_def)
  from * assms(1) show "\<forall>j < NB_IOS. ios w' ! j =
           (if type (ios w ! j) = IO_DOUT \<or> type (ios w ! j) = IO_PWMOUT
            then (ios w ! j)\<lparr>valueDL := v ! j\<rparr> else ios w ! j)"
    unfolding eq by (simp add: wf_def)
  from * show "trace w' = trace w @ concat (map (\<lambda>i.
           if 0 \<le> sint (gpio (ios w ! i)) \<and> type (ios w ! i) = IO_DOUT
           then [GPIO_write (gpio (ios w ! i)) (v ! i)] else []) [0..<NB_IOS])"
    unfolding eq by simp
qed

lemma iosetAction_wrong_length: "unat l \<noteq> NB_IOS \<Longrightarrow> iosetAction v l w = Inr w"
  by (simp add: iosetAction_def)

lemma step_ok_refl: "wf w \<Longrightarrow> step_ok w w"
  by (simp add: step_ok_def)

lemma iosetAction_step_ok:
  assumes "wf w" "iosetAction v l w = Inr w'"
  shows "step_ok w w'"
proof (cases "unat l = NB_IOS")
  case False
  with assms show ?thesis by (simp add: iosetAction_wrong_length step_ok_refl)
next
  case True
  note e = iosetAction_exact [OF assms True]
  have "appends quiet w w'"
    by (rule appendsI [OF e(3)], rule list_all_concat_map)
      (simp add: quiet_def pins_ok_def)
  moreover have "wf w'" using e(1) by (simp add: wf_def)
  ultimately show ?thesis using e(2) by (simp add: step_ok_def)
qed

lemma callback_store_step_ok:
  assumes "wf w" "0 \<le> c" "c < int NB_IOS" "trace w' = trace w @ cs" "list_all quiet cs"
    "ios w' = (ios w)[nat c := (ios w ! nat c)\<lparr>valueUL := x\<rparr>]"
    "0 \<le> sint (gpio (ios w ! nat c))"
  shows "step_ok w w'"
proof -
  from assms(1-3) have c: "nat c < length (ios w)" by (simp add: wf_def)
  have "wf w'" using assms(1,6) by (simp add: wf_def)
  moreover have "appends quiet w w'" using assms(4,5) by (rule appendsI)
  moreover have "\<forall>k < NB_IOS. gpio (ios w' ! k) = gpio (ios w ! k)
      \<and> (sint (gpio (ios w ! k)) < 0 \<longrightarrow> ios w' ! k = (ios w ! k)\<lparr>valueDL := valueDL (ios w' ! k)\<rparr>)"
    using c assms(6,7) by (auto simp add: nth_list_update)
  ultimately show ?thesis by (simp add: step_ok_def)
qed

lemma buttonChangeCB_step_ok:
  assumes "wf w" "0 \<le> c" "c < int NB_IOS" "0 \<le> sint (gpio (ios w ! nat c))"
  shows "step_ok w (buttonChangeCB P c st pt w)"
proof (cases "st = SR_BUTTON_RELEASED P \<and> AppCore_isDeviceActive P")
  case False
  with assms(1) show ?thesis by (auto simp add: buttonChangeCB_def step_ok_refl)
next
  case True
  show ?thesis
    by (rule callback_store_step_ok [OF assms(1-3) _ _ _ assms(4),
          where x = "word_of_int pt"
            and cs = "[SRMgr_getLastButtonReleaseTS (gpio (ios w ! nat c)),
                       SRMgr_getLastButtonPressTS (gpio (ios w ! nat c)),
                       SRMgr_getLastButtonPressType (gpio (ios w ! nat c)),
                       AppCore_forceUL (MY_MOD_ID P)]"])
      (use True assms(2-4) in \<open>simp_all add: buttonChangeCB_def quiet_def pins_ok_def\<close>)
qed

lemma stateInputChangeCB_step_ok:
  assumes "wf w" "0 \<le> c" "c < int NB_IOS" "0 \<le> sint (gpio (ios w ! nat c))"
  shows "step_ok w (stateInputChangeCB P c st pt w)"
proof (cases "AppCore_isDeviceActive P")
  case False
  with assms(1) show ?thesis by (simp add: stateInputChangeCB_def step_ok_refl)
next
  case True
  show ?thesis
    by (rule callback_store_step_ok [OF assms(1-3) _ _ _ assms(4),
          where x = "word_of_int st" and cs = "[AppCore_forceUL (MY_MOD_ID P)]"])
      (use True assms(2-4) in \<open>simp_all add: stateInputChangeCB_def quiet_def pins_ok_def\<close>)
qed

lemma registered_reg_ok:
  assumes "registered cb c w" "list_all (reg_ok (ios w)) (trace w)"
  shows "0 \<le> c \<and> c < int NB_IOS \<and> 0 \<le> sint (gpio (ios w ! nat c))"
proof -
  from assms(1) obtain e where e: "e \<in> set (trace w)"
    "(case e of SRMgr_registerButtonCB p cb' c' \<Rightarrow> cb' = cb \<and> c' = c | _ \<Rightarrow> False)"
    by (auto simp add: registered_def list_ex_iff)
  from e(2) obtain p where "e = SRMgr_registerButtonCB p cb c"
    by (cases e) simp_all
  moreover from e(1) assms(2) have "reg_ok (ios w) e" by (simp add: list_all_iff)
  ultimately show ?thesis by (simp add: reg_ok_def)
qed

lemma reg_ok_cong:
  "\<forall>k < NB_IOS. gpio (T' ! k) = gpio (T ! k) \<Longrightarrow> reg_ok T' c = reg_ok T c"
  by (cases c) (auto simp add: reg_ok_def)

lemma ctx_inv_step_ok:
  assumes "ctx_inv w" "step_ok w w'"
  shows "ctx_inv w'"
proof -
  from assms(2) have wf': "wf w'"
    and g: "\<forall>k < NB_IOS. gpio (ios w' ! k) = gpio (ios w ! k)"
    and s: "\<And>k. k < NB_IOS \<Longrightarrow> sint (gpio (ios w ! k)) < 0 \<Longrightarrow>
        ios w' ! k = (ios w ! k)\<lparr>valueDL := valueDL (ios w' ! k)\<rparr>"
    and a: "appends quiet w w'"
    by (simp_all add: step_ok_def)
  have u: "valueUL (ios w' ! k) = 0" if "k < NB_IOS" "sint (gpio (ios w' ! k)) < 0" for k
  proof -
    from that g have p: "sint (gpio (ios w ! k)) < 0" by simp
    with assms(1) that(1) have "valueUL (ios w ! k) = 0" by (simp add: ctx_inv_def)
    moreover from s [OF that(1) p] have "valueUL (ios w' ! k) = valueUL (ios w ! k)"
      by (metis mio.select_convs(6) mio.surjective mio.update_convs(5))
    ultimately show ?thesis by simp
  qed
  from a obtain cs where cs: "trace w' = trace w @ cs" "list_all quiet cs"
    by (auto simp add: appends_def)
  from assms(1) have "list_all (reg_ok (ios w)) (trace w)" by (simp add: ctx_inv_def)
  moreover have "reg_ok (ios w') = reg_ok (ios w)"
    by (rule ext) (rule reg_ok_cong [OF g])
  ultimately have "list_all (reg_ok (ios w')) (trace w)"
    by simp
  moreover from cs(2) have "list_all (reg_ok (ios w')) cs"
    by (auto simp add: list_all_iff quiet_reg_ok)
  ultimately have "list_all (reg_ok (ios w')) (trace w')" by (simp add: cs(1))
  with wf' u show ?thesis by (simp add: ctx_inv_def)
qed

lemma step_step_ok:
  assumes "ctx_inv w" "step x w = Some w'"
  shows "step_ok w w'"
proof -
  from assms(1) have w: "wf w"
    and z: "\<forall>k < NB_IOS. sint (gpio (ios w ! k)) < 0 \<longrightarrow> valueUL (ios w ! k) = 0"
    and r: "list_all (reg_ok (ios w)) (trace w)"
    by (simp_all add: ctx_inv_def)
  show ?thesis
  proof (cases x)
    case (ReadIO P j)
    with assms(2) w show ?thesis by (auto simp add: readIO_step_ok)
  next
    case (WriteIO j v)
    with assms(2) w show ?thesis by (auto simp add: writeIO_step_ok)
  next
    case (ReadIOs P)
    with assms(2) w show ?thesis by (auto simp add: readIOs_step_ok)
  next
    case (GetData P)
    with assms(2) w z show ?thesis by (auto simp add: getData_step_ok)
  next
    case (IosetAction v l)
    with assms(2) w show ?thesis
      by (auto simp add: iosetAction_step_ok split: sum.splits)
  next
    case (ButtonChange P c st pt)
    with assms(2) have reg: "registered buttonChangeCB_ptr c w"
      and w': "w' = buttonChangeCB P c st pt w"
      by (simp_all split: if_splits)
    from registered_reg_ok [OF reg r] w show ?thesis
      unfolding w' by (simp add: buttonChangeCB_step_ok)
  next
    case (StateInputChange P c st pt)
    with assms(2) have reg: "registered stateInputChangeCB_ptr c w"
      and w': "w' = stateInputChangeCB P c st pt w"
      by (simp_all split: if_splits)
    from registered_reg_ok [OF reg r] w show ?thesis
      unfolding w' by (simp add: stateInputChangeCB_step_ok)
  qed
qed

lemma ctx_inv_run: "ctx_inv w \<Longrightarrow> run xs w = Some w' \<Longrightarrow> ctx_inv w'"
proof (induction xs arbitrary: w)
  case Nil
  then show ?case by simp
next
  case (Cons x xs)
  from Cons.prems(2) obtain w1 where w1: "step x w = Some w1" "run xs w1 = Some w'"
    by (auto split: option.splits)
  from Cons.prems(1) w1(1) have "ctx_inv w1"
    by (blast intro: ctx_inv_step_ok step_step_ok)
  then show ?case using w1(2) by (rule Cons.IH)
qed

lemma configure_round_Inl: "configure_round d (Inl e) = Inl e"
  by (simp add: configure_round_def)

lemma fold_configure_round_Inl: "fold configure_round cfg (Inl e) = Inl e"
  by (induction cfg) (simp_all add: configure_round_Inl)

lemma configure_round_keeps:
  assumes "configure_round d (Inr u) = Inr u'"
    and "wf u \<and> (\<forall>k < NB_IOS. valueUL (ios u ! k) = 0) \<and> trace u = []"
  shows "wf u' \<and> (\<forall>k < NB_IOS. valueUL (ios u' ! k) = 0) \<and> trace u' = []"
proof -
  obtain ioid g nm t p iv where d: "d = (ioid, g, nm, t, p, iv)" by (cases d)
  from assms(1) d have r: "0 \<le> ioid" "ioid < int NB_IOS"
    and u': "u' = set_io (nat ioid)
        (\<lambda>m. m\<lparr>gpio := word_of_int g, name := nm, type := t, pull := p, valueDL := iv\<rparr>) u"
    by (auto simp add: configure_round_def defineIO_def split: if_splits)
  from r assms(2) have "nat ioid < length (ios u)" by (simp add: wf_def)
  with assms(2) show ?thesis unfolding u'
    by (auto simp add: wf_def nth_list_update)
qed

lemma fold_configure_round_keeps:
  "fold configure_round cfg (Inr u) = Inr u' \<Longrightarrow>
   wf u \<and> (\<forall>k < NB_IOS. valueUL (ios u ! k) = 0) \<and> trace u = [] \<Longrightarrow>
   wf u' \<and> (\<forall>k < NB_IOS. valueUL (ios u' ! k) = 0) \<and> trace u' = []"
proof (induction cfg arbitrary: u)
  case Nil
  then show ?case by simp
next
  case (Cons d cfg)
  show ?case
  proof (cases "configure_round d (Inr u)")
    case (Inl e)
    with Cons.prems(1) show ?thesis by (simp add: fold_configure_round_Inl)
  next
    case (Inr u1)
    with Cons.prems(1) have "fold configure_round cfg (Inr u1) = Inr u'" by simp
    moreover from Inr Cons.prems(2)
    have "wf u1 \<and> (\<forall>k < NB_IOS. valueUL (ios u1 ! k) = 0) \<and> trace u1 = []"
      by (rule configure_round_keeps)
    ultimately show ?thesis by (rule Cons.IH)
  qed
qed

lemma zeroed_ctx_facts:
  "wf zeroed_ctx \<and> (\<forall>k < NB_IOS. valueUL (ios zeroed_ctx ! k) = 0) \<and> trace zeroed_ctx = []"
  by (simp add: zeroed_ctx_def wf_def)

lemma ctx_inv_mod_io_init:
  assumes "mod_io_init P cfg = Inr w"
  shows "ctx_inv w"
proof -
  from assms obtain u where u: "fold configure_round cfg (Inr zeroed_ctx) = Inr u"
    and w: "w = initIOs P (emit (AppCore_registerAction (DL_APP_IO_SET P))
        (emit (AppCore_registerModule ''IO'' (MY_MOD_ID P) (EXEC_PARALLEL P)) u))"
    by (auto simp add: mod_io_init_def split: sum.splits)
  let ?u1 = "emit (AppCore_registerAction (DL_APP_IO_SET P))
        (emit (AppCore_registerModule ''IO'' (MY_MOD_ID P) (EXEC_PARALLEL P)) u)"
  from fold_configure_round_keeps [OF u zeroed_ctx_facts]
  have c: "wf u" "\<forall>k < NB_IOS. valueUL (ios u ! k) = 0" "trace u = []" by simp_all
  from initIOs_facts [of P ?u1] obtain cs where
    i: "ios w = ios u" and cs: "trace w = trace ?u1 @ cs"
      "list_all (\<lambda>c. pins_ok c \<and> reg_ok (ios u) c) cs"
    unfolding w by (auto simp add: appends_def)
  from cs(2) have "list_all (reg_ok (ios u)) cs" by (simp add: list_all_iff)
  with cs(1) c(3) have "list_all (reg_ok (ios w)) (trace w)"
    by (simp add: i reg_ok_def)
  with c(1,2) i show ?thesis by (simp add: ctx_inv_def wf_def)
qed

lemma reachable_ctx_inv:
  "mod_io_init P0 cfg = Inr w0 \<Longrightarrow> run xs w0 = Some w \<Longrightarrow> ctx_inv w"
  by (blast intro: ctx_inv_mod_io_init ctx_inv_run)

subsection \<open>Reading one slot\<close>

text \<open>
  Claim C9. In every state the module reaches (after \<^verbatim>\<open>mod_io_init\<close> with any
  configuration and any run): for an index outside \<open>[0, NB_IOS)\<close>, and for an index whose
  slot has no pin, \<^verbatim>\<open>readIO\<close> makes no call, changes nothing and returns 0; for a button
  or state input slot it makes no call and changes nothing, \<open>valueUL\<close> included, and
  returns the \<open>valueUL\<close> the callbacks have left there.
\<close>

theorem readIO_inert_cases:
  assumes "mod_io_init P0 cfg = Inr w0" "run xs w0 = Some w"
  shows "(ioid < 0 \<or> int NB_IOS \<le> ioid \<longrightarrow> readIO P ioid w = (0, w))
       \<and> (0 \<le> ioid \<and> ioid < int NB_IOS \<and> sint (gpio (ios w ! nat ioid)) < 0
            \<longrightarrow> readIO P ioid w = (0, w))
       \<and> (0 \<le> ioid \<and> ioid < int NB_IOS
            \<and> (type (ios w ! nat ioid) = IO_BUTTON \<or> type (ios w ! nat ioid) = IO_STATE)
            \<longrightarrow> readIO P ioid w = (valueUL (ios w ! nat ioid), w))"
proof -
  from assms have "ctx_inv w" by (rule reachable_ctx_inv)
  then have z: "\<And>k. k < NB_IOS \<Longrightarrow> sint (gpio (ios w ! k)) < 0 \<Longrightarrow> valueUL (ios w ! k) = 0"
    by (simp add: ctx_inv_def)
  have 1: "ioid < 0 \<or> int NB_IOS \<le> ioid \<longrightarrow> readIO P ioid w = (0, w)"
    by (auto simp add: readIO_def)
  have 2: "0 \<le> ioid \<and> ioid < int NB_IOS \<and> sint (gpio (ios w ! nat ioid)) < 0
      \<longrightarrow> readIO P ioid w = (0, w)"
  proof
    assume a: "0 \<le> ioid \<and> ioid < int NB_IOS \<and> sint (gpio (ios w ! nat ioid)) < 0"
    then have "nat ioid < NB_IOS" by auto
    with a have "valueUL (ios w ! nat ioid) = 0" by (simp add: z)
    with a show "readIO P ioid w = (0, w)" by (simp add: readIO_def Let_def)
  qed
  have 3: "0 \<le> ioid \<and> ioid < int NB_IOS
      \<and> (type (ios w ! nat ioid) = IO_BUTTON \<or> type (ios w ! nat ioid) = IO_STATE)
      \<longrightarrow> readIO P ioid w = (valueUL (ios w ! nat ioid), w)"
    by (auto simp add: readIO_def Let_def)
  from 1 2 3 show ?thesis by blast
qed

theorem readIO_inert_cases_witness:
  "mod_io_init example_platform example_cfg = Inr example_booted
   \<and> run example_run example_booted = Some example_reached
   \<and> readIO example_platform 8 example_reached = (0, example_reached)
   \<and> readIO example_platform (- 1) example_reached = (0, example_reached)
   \<and> sint (gpio (ios example_reached ! nat 3)) < 0
   \<and> readIO example_platform 3 example_reached = (0, example_reached)
   \<and> type (ios example_reached ! nat 1) = IO_BUTTON
   \<and> readIO example_platform 1 example_reached = (2, example_reached)"
proof -
  have h1: "mod_io_init example_platform example_cfg = Inr example_booted" by code_simp
  have h2: "run example_run example_booted = Some example_reached" by code_simp
  have n: "int NB_IOS = 8" by (simp add: NB_IOS_def)
  have a: "sint (gpio (ios example_reached ! nat 3)) < 0"
    "type (ios example_reached ! nat 1) = IO_BUTTON" "valueUL (ios example_reached ! nat 1) = 2"
    by code_simp+
  from readIO_inert_cases [OF h1 h2, of 8 example_platform]
    readIO_inert_cases [OF h1 h2, of "- 1" example_platform]
    readIO_inert_cases [OF h1 h2, of 3 example_platform]
    readIO_inert_cases [OF h1 h2, of 1 example_platform] n a h1 h2
  show ?thesis by simp
qed

subsection \<open>Slots without a pin\<close>

lemma no_access_appends:
  assumes "sint (gpio m) < 0" "appends Q w w'" "\<And>c. Q c \<Longrightarrow> pins_ok c"
  shows "no_access m (new_calls w w')"
proof -
  from assms(2,3) have "appends pins_ok w w'" by (rule appends_mono)
  then have "list_all pins_ok (new_calls w w')" by (rule appends_new_calls)
  with assms(1) show ?thesis by (rule no_access_pins_ok)
qed

lemma no_access_step_ok: "sint (gpio m) < 0 \<Longrightarrow> step_ok w w' \<Longrightarrow> no_access m (new_calls w w')"
  by (rule no_access_appends [where Q = quiet]) (simp_all add: step_ok_def quiet_pins_ok)

lemma readIO_keeps_unassigned:
  "sint (gpio (ios w ! i)) < 0 \<Longrightarrow> ios (snd (readIO P j w)) ! i = ios w ! i"
  by (cases "nat j < length (ios w)")
    (auto simp add: readIO_def Let_def nth_list_update list_update_beyond split: IO_TYPE.splits)

lemma callback_store_keeps:
  assumes "wf w" "0 \<le> c \<and> c < int NB_IOS \<and> 0 \<le> sint (gpio (ios w ! nat c))"
    "sint (gpio (ios w ! i)) < 0"
    "w' = w \<or> ios w' = (ios w)[nat c := (ios w ! nat c)\<lparr>valueUL := x\<rparr>]"
  shows "ios w' ! i = ios w ! i"
proof -
  from assms(2,3) have "nat c \<noteq> i" by auto
  with assms(4) show ?thesis by auto
qed

text \<open>
  With the example configuration, slot 3 has no pin and is declared as an output. Right
  after \<^verbatim>\<open>mod_io_init\<close>, the downlink action stores its byte in the \<open>valueDL\<close> of that
  slot, as it does for slot 0.
\<close>

theorem unassigned_slot_counterexample:
  "mod_io_init example_platform example_cfg = Inr example_booted
   \<and> map (sint \<circ> gpio) (ios example_booted) = [5, 6, 7, - 1, 8, - 1, - 1, - 1]
   \<and> map valueDL (ios example_booted) = [0, 0, 0, 0, 0, 0, 0, 0]
   \<and> map_sum id (map valueDL \<circ> ios) (iosetAction [1, 0, 1, 1, 0, 0, 0, 0] 8 example_booted) =
       Inr [1, 0, 0, 1, 0, 0, 0, 0]"
  by code_simp

text \<open>
  Claim C10, amended. In every state the module reaches, a slot \<open>i\<close> without a pin is
  inert under every operation, but for one field: \<^verbatim>\<open>iosetAction\<close> stores the byte at its
  index in its \<open>valueDL\<close> when its type is \<^verbatim>\<open>IO_DOUT\<close> or \<^verbatim>\<open>IO_PWMOUT\<close>.
  \<^item> No field of the slot is modified by \<^verbatim>\<open>initIOs\<close>, \<^verbatim>\<open>readIO\<close>, \<^verbatim>\<open>writeIO\<close> (on any
    index), \<^verbatim>\<open>readIOs\<close>, \<^verbatim>\<open>getData\<close> and the two callbacks (on any context registered with
    the button manager); \<^verbatim>\<open>iosetAction\<close> modifies no field but \<open>valueDL\<close>.
  \<^item> No hardware is accessed for it: the round of \<^verbatim>\<open>initIOs\<close> for \<open>i\<close>, \<^verbatim>\<open>readIO\<close> on \<open>i\<close>
    and \<^verbatim>\<open>writeIO\<close> on \<open>i\<close> make no call at all, and no call that any operation adds to
    the trace addresses the pin of the slot (every pin addressed is an assigned one).
  \<^item> The byte of the slot in the report of \<^verbatim>\<open>getData\<close> is the placeholder 0.
\<close>

theorem unassigned_slot_inert:
  assumes "mod_io_init P0 cfg = Inr w0" "run xs w0 = Some w"
    and "i < NB_IOS" "sint (gpio (ios w ! i)) < 0"
  shows "(initIO P i w = w \<and> ios (initIOs P w) ! i = ios w ! i
            \<and> no_access (ios w ! i) (new_calls w (initIOs P w)))
       \<and> readIO P (int i) w = (0, w)
       \<and> (ios (snd (readIO P j w)) ! i = ios w ! i
            \<and> no_access (ios w ! i) (new_calls w (snd (readIO P j w))))
       \<and> writeIO (int i) v w = w
       \<and> (ios (writeIO j v w) ! i = ios w ! i
            \<and> no_access (ios w ! i) (new_calls w (writeIO j v w)))
       \<and> (ios (readIOs P w) ! i = ios w ! i
            \<and> no_access (ios w ! i) (new_calls w (readIOs P w)))
       \<and> (ios (snd (getData P w)) ! i = ios w ! i
            \<and> last_report (snd (getData P w)) ! i = 0
            \<and> no_access (ios w ! i) (new_calls w (snd (getData P w))))
       \<and> (iosetAction bs l w = Inr w' \<longrightarrow>
            ios w' ! i =
              (if unat l = NB_IOS \<and> (type (ios w ! i) = IO_DOUT \<or> type (ios w ! i) = IO_PWMOUT)
               then (ios w ! i)\<lparr>valueDL := bs ! i\<rparr> else ios w ! i)
            \<and> no_access (ios w ! i) (new_calls w w'))
       \<and> (registered buttonChangeCB_ptr c w \<longrightarrow>
            ios (buttonChangeCB P c st pt w) ! i = ios w ! i
            \<and> no_access (ios w ! i) (new_calls w (buttonChangeCB P c st pt w)))
       \<and> (registered stateInputChangeCB_ptr c w \<longrightarrow>
            ios (stateInputChangeCB P c st pt w) ! i = ios w ! i
            \<and> no_access (ios w ! i) (new_calls w (stateInputChangeCB P c st pt w)))"
proof -
  from assms(1,2) have inv: "ctx_inv w" by (rule reachable_ctx_inv)
  then have w: "wf w"
    and z: "\<forall>k < NB_IOS. sint (gpio (ios w ! k)) < 0 \<longrightarrow> valueUL (ios w ! k) = 0"
    and r: "list_all (reg_ok (ios w)) (trace w)"
    by (simp_all add: ctx_inv_def)
  from w assms(3) have len: "i < length (ios w)" by (simp add: wf_def)
  from z assms(3,4) have u: "valueUL (ios w ! i) = 0" by simp
  note p = assms(4)
  have init: "initIO P i w = w \<and> ios (initIOs P w) ! i = ios w ! i
      \<and> no_access (ios w ! i) (new_calls w (initIOs P w))"
    using initIOs_facts [of P w] p
    by (simp add: initIO_unassigned
        no_access_appends [where Q = "\<lambda>c. pins_ok c \<and> reg_ok (ios w) c"])
  have rd1: "readIO P (int i) w = (0, w)"
    using assms(3) p u by (simp add: readIO_def Let_def)
  have rd2: "ios (snd (readIO P j w)) ! i = ios w ! i
      \<and> no_access (ios w ! i) (new_calls w (snd (readIO P j w)))"
    using p w by (simp add: readIO_keeps_unassigned no_access_step_ok readIO_step_ok)
  have wr1: "writeIO (int i) v w = w"
    using p by (simp add: writeIO_noop)
  have wr2: "ios (writeIO j v w) ! i = ios w ! i
      \<and> no_access (ios w ! i) (new_calls w (writeIO j v w))"
    using p w by (simp add: writeIO_ios no_access_step_ok writeIO_step_ok)
  have rds: "ios (readIOs P w) ! i = ios w ! i
      \<and> no_access (ios w ! i) (new_calls w (readIOs P w))"
    using p w assms(3)
    by (simp add: readIOs_slotwise readIO_slot_unassigned no_access_step_ok readIOs_step_ok)
  have zz: "(ios w ! i)\<lparr>valueUL := 0\<rparr> = ios w ! i"
    using u by (cases "ios w ! i") simp
  have gd: "ios (snd (getData P w)) ! i = ios w ! i
      \<and> last_report (snd (getData P w)) ! i = 0
      \<and> no_access (ios w ! i) (new_calls w (snd (getData P w)))"
    using p w z len u zz
    by (simp add: getData_ios getData_report nth_append readIO_slot_unassigned
        no_access_step_ok getData_step_ok)
  have io: "iosetAction bs l w = Inr w' \<longrightarrow>
      ios w' ! i =
        (if unat l = NB_IOS \<and> (type (ios w ! i) = IO_DOUT \<or> type (ios w ! i) = IO_PWMOUT)
         then (ios w ! i)\<lparr>valueDL := bs ! i\<rparr> else ios w ! i)
      \<and> no_access (ios w ! i) (new_calls w w')"
  proof
    assume a: "iosetAction bs l w = Inr w'"
    from p w a have n: "no_access (ios w ! i) (new_calls w w')"
      by (simp add: no_access_step_ok iosetAction_step_ok)
    show "ios w' ! i =
        (if unat l = NB_IOS \<and> (type (ios w ! i) = IO_DOUT \<or> type (ios w ! i) = IO_PWMOUT)
         then (ios w ! i)\<lparr>valueDL := bs ! i\<rparr> else ios w ! i)
      \<and> no_access (ios w ! i) (new_calls w w')"
    proof (cases "unat l = NB_IOS")
      case True
      from iosetAction_exact(2) [OF w a True] assms(3) n True show ?thesis by simp
    next
      case False
      with a have "w' = w" by (simp add: iosetAction_wrong_length)
      with False n show ?thesis by simp
    qed
  qed
  have b: "registered buttonChangeCB_ptr c w \<longrightarrow>
      ios (buttonChangeCB P c st pt w) ! i = ios w ! i
      \<and> no_access (ios w ! i) (new_calls w (buttonChangeCB P c st pt w))"
  proof
    assume "registered buttonChangeCB_ptr c w"
    from registered_reg_ok [OF this r]
    have c: "0 \<le> c \<and> c < int NB_IOS \<and> 0 \<le> sint (gpio (ios w ! nat c))" .
    have "buttonChangeCB P c st pt w = w \<or> ios (buttonChangeCB P c st pt w) =
        (ios w)[nat c := (ios w ! nat c)\<lparr>valueUL := word_of_int pt\<rparr>]"
      by (simp add: buttonChangeCB_def)
    from callback_store_keeps [OF w c p this] p w c
    show "ios (buttonChangeCB P c st pt w) ! i = ios w ! i
      \<and> no_access (ios w ! i) (new_calls w (buttonChangeCB P c st pt w))"
      by (simp add: no_access_step_ok buttonChangeCB_step_ok)
  qed
  have s: "registered stateInputChangeCB_ptr c w \<longrightarrow>
      ios (stateInputChangeCB P c st pt w) ! i = ios w ! i
      \<and> no_access (ios w ! i) (new_calls w (stateInputChangeCB P c st pt w))"
  proof
    assume "registered stateInputChangeCB_ptr c w"
    from registered_reg_ok [OF this r]
    have c: "0 \<le> c \<and> c < int NB_IOS \<and> 0 \<le> sint (gpio (ios w ! nat c))" .
    have "stateInputChangeCB P c st pt w = w \<or> ios (stateInputChangeCB P c st pt w) =
        (ios w)[nat c := (ios w ! nat c)\<lparr>valueUL := word_of_int st\<rparr>]"
      by (simp add: stateInputChangeCB_def)
    from callback_store_keeps [OF w c p this] p w c
    show "ios (stateInputChangeCB P c st pt w) ! i = ios w ! i
      \<and> no_access (ios w ! i) (new_calls w (stateInputChangeCB P c st pt w))"
      by (simp add: no_access_step_ok stateInputChangeCB_step_ok)
  qed
  from init rd1 rd2 wr1 wr2 rds gd io b s show ?thesis by blast
qed

theorem unassigned_slot_inert_witness:
  "mod_io_init example_platform example_cfg = Inr example_booted
   \<and> run example_run example_booted = Some example_reached
   \<and> (3::nat) < NB_IOS \<and> sint (gpio (ios example_reached ! 3)) < 0
   \<and> readIO example_platform 3 example_reached = (0, example_reached)
   \<and> writeIO 3 1 example_reached = example_reached
   \<and> ios (readIOs example_platform example_reached) ! 3 = ios example_reached ! 3
   \<and> ios (snd (getData example_platform example_reached)) ! 3 = ios example_reached ! 3
   \<and> last_report (snd (getData example_platform example_reached)) ! 3 = 0
   \<and> no_access (ios example_reached ! 3)
       (new_calls example_reached (snd (getData example_platform example_reached)))
   \<and> registered buttonChangeCB_ptr 1 example_reached
   \<and> ios (buttonChangeCB example_platform 1 0 4 example_reached) ! 3 = ios example_reached ! 3"
proof -
  have h1: "mod_io_init example_platform example_cfg = Inr example_booted" by code_simp
  have h2: "run example_run example_booted = Some example_reached" by code_simp
  have h3: "(3::nat) < NB_IOS" by (simp add: NB_IOS_def)
  have h4: "sint (gpio (ios example_reached ! 3)) < 0" by code_simp
  have g: "registered buttonChangeCB_ptr 1 example_reached" by code_simp
  from unassigned_slot_inert [OF h1 h2 h3 h4, of example_platform 0 1 _ _ _ 1 0 4] h1 h2 h3 h4 g
  show ?thesis by simp
qed

subsection \<open>Further properties of the functions\<close>

text \<open>
  Property X1. For an index in \<open>[0, NB_IOS)\<close> and a pin that fits an \<^verbatim>\<open>int8_t\<close>,
  \<^verbatim>\<open>defineIO\<close> sets the pin, name, type, pull and \<open>valueDL\<close> of that slot to its
  arguments, keeps its \<open>valueUL\<close>, leaves every other slot as it is and makes no call.
\<close>

theorem defineIO_populates_slot:
  assumes "0 \<le> ioid" "ioid < int NB_IOS" "wf w" "- 128 \<le> g" "g < 128"
  shows "\<exists>w'. defineIO ioid g nm t p iv w = Inr w' \<and> trace w' = trace w
     \<and> length (ios w') = NB_IOS
     \<and> sint (gpio (ios w' ! nat ioid)) = g
     \<and> ios w' ! nat ioid = \<lparr>gpio = word_of_int g, name = nm, type = t, pull = p, valueDL = iv,
                             valueUL = valueUL (ios w ! nat ioid)\<rparr>
     \<and> (\<forall>j < NB_IOS. j \<noteq> nat ioid \<longrightarrow> ios w' ! j = ios w ! j)"
proof -
  from assms(4,5) have "sint (word_of_int g :: int8_t) = g"
    by (simp add: sint_sbintrunc' signed_take_bit_int_eq_self)
  with defineIO_in_range [OF assms(1-3), of g nm t p iv] show ?thesis by auto
qed

theorem defineIO_populates_slot_witness:
  "(0::int) \<le> 1 \<and> 1 < int NB_IOS \<and> wf example_world \<and> (- 128 :: int) \<le> 9 \<and> (9::int) < 128
   \<and> map_sum id (\<lambda>w'. ios w' ! 1) (defineIO 1 9 ''adc'' IO_AIN 2 0 example_world) =
       Inr \<lparr>gpio = 9, name = ''adc'', type = IO_AIN, pull = 2, valueDL = 0, valueUL = 2\<rparr>"
proof -
  have h1: "(0::int) \<le> 1" and h4: "(- 128 :: int) \<le> 9" and h5: "(9::int) < 128" by simp_all
  have h2: "1 < int NB_IOS" by (simp add: NB_IOS_def)
  have h3: "wf example_world" by (rule wf_example_world)
  from defineIO_populates_slot [OF h1 h2 h3 h4 h5, of "''adc''" IO_AIN 2 0]
  obtain w' where w': "defineIO 1 9 ''adc'' IO_AIN 2 0 example_world = Inr w'"
    and s: "ios w' ! nat 1 = \<lparr>gpio = word_of_int 9, name = ''adc'', type = IO_AIN, pull = 2,
        valueDL = 0, valueUL = valueUL (ios example_world ! nat 1)\<rparr>"
    by blast
  have u: "valueUL (ios example_world ! nat 1) = 2" by code_simp
  from s u have "ios w' ! 1 = \<lparr>gpio = 9, name = ''adc'', type = IO_AIN, pull = 2, valueDL = 0,
      valueUL = 2\<rparr>"
    by simp
  then show ?thesis unfolding w' using h1 h2 h3 h4 h5 by simp
qed

text \<open>
  Property X2. With the device active and a context inside \<open>[0, NB_IOS)\<close>,
  \<^verbatim>\<open>stateInputChangeCB\<close> stores the new state (as a byte) in the \<open>valueUL\<close> of that slot,
  for every state, changes nothing else, and makes exactly one call,
  \<^verbatim>\<open>AppCore_forceUL(MY_MOD_ID)\<close>.
\<close>

theorem stateInputChangeCB_stores_state:
  assumes "AppCore_isDeviceActive P" "0 \<le> ctx" "ctx < int NB_IOS"
  shows "stateInputChangeCB P ctx st pt w =
           \<lparr>ios = (ios w)[nat ctx := (ios w ! nat ctx)\<lparr>valueUL := word_of_int st\<rparr>],
            trace = trace w @ [AppCore_forceUL (MY_MOD_ID P)]\<rparr>"
  using assms by (simp add: stateInputChangeCB_def set_io_def emit_def)

theorem stateInputChangeCB_stores_state_witness:
  "AppCore_isDeviceActive example_platform \<and> (0::int) \<le> 4 \<and> 4 < int NB_IOS
   \<and> stateInputChangeCB example_platform 4 1 0 example_world =
       \<lparr>ios = (ios example_world)[4 := (ios example_world ! 4)\<lparr>valueUL := 1\<rparr>],
        trace = [AppCore_forceUL 3]\<rparr>"
proof -
  have h1: "AppCore_isDeviceActive example_platform" by (simp add: example_platform_def)
  have h2: "(0::int) \<le> 4" by simp
  have h3: "4 < int NB_IOS" by (simp add: NB_IOS_def)
  have m: "MY_MOD_ID example_platform = 3" and t: "trace example_world = []"
    by (simp_all add: example_platform_def example_world_def)
  from stateInputChangeCB_stores_state [OF h1 h2 h3, of 1 0 example_world] m t h1 h2 h3
  show ?thesis by simp
qed

text \<open>
  Property X3. For a slot with a pin: on a digital input \<^verbatim>\<open>readIO\<close> calls \<^verbatim>\<open>GPIO_read\<close>
  once on the pin, stores the sample (as a byte) in \<open>valueUL\<close> and returns it; on an
  analog input it does the same with \<^verbatim>\<open>GPIO_readADC\<close>; on an output (digital or PWM) it
  makes no call, changes nothing and returns the \<open>valueUL\<close> the slot holds.
\<close>

theorem readIO_samples_inputs:
  assumes "wf w" "i < NB_IOS" "0 \<le> sint (gpio (ios w ! i))"
  shows "(type (ios w ! i) = IO_DIN \<longrightarrow>
            readIO P (int i) w =
              (word_of_int (GPIO_read_result P (gpio (ios w ! i))),
               \<lparr>ios = (ios w)[i := (ios w ! i)\<lparr>valueUL := word_of_int (GPIO_read_result P (gpio (ios w ! i)))\<rparr>],
                trace = trace w @ [GPIO_read (gpio (ios w ! i))]\<rparr>))
       \<and> (type (ios w ! i) = IO_AIN \<longrightarrow>
            readIO P (int i) w =
              (word_of_int (GPIO_readADC_result P (gpio (ios w ! i))),
               \<lparr>ios = (ios w)[i := (ios w ! i)\<lparr>valueUL := word_of_int (GPIO_readADC_result P (gpio (ios w ! i)))\<rparr>],
                trace = trace w @ [GPIO_readADC (gpio (ios w ! i))]\<rparr>))
       \<and> (type (ios w ! i) = IO_DOUT \<or> type (ios w ! i) = IO_PWMOUT \<longrightarrow>
            readIO P (int i) w = (valueUL (ios w ! i), w))"
proof -
  from assms have "i < length (ios w)" by (simp add: wf_def)
  with assms(2,3) show ?thesis
    by (simp add: readIO_def Let_def set_io_def emit_def)
qed

theorem readIO_samples_inputs_witness:
  "wf example_world \<and> (2::nat) < NB_IOS \<and> 0 \<le> sint (gpio (ios example_world ! 2))
   \<and> fst (readIO example_platform 2 example_world) = 1
   \<and> trace (snd (readIO example_platform 2 example_world)) = [GPIO_read 7]"
proof -
  have h1: "wf example_world" by (rule wf_example_world)
  have h2: "(2::nat) < NB_IOS" by (simp add: NB_IOS_def)
  have h3: "0 \<le> sint (gpio (ios example_world ! 2))" by code_simp
  have a: "type (ios example_world ! 2) = IO_DIN" "gpio (ios example_world ! 2) = 7"
    "(word_of_int (GPIO_read_result example_platform 7) :: uint8_t) = 1"
    "trace example_world = []"
    by code_simp+
  from readIO_samples_inputs [OF h1 h2 h3, of example_platform] a h1 h2 h3
  show ?thesis by simp
qed

end
